theory Spec2Isabelle
  imports Complex_Main "HOL-Library.Word"
begin

section \<open>JavaScript numbers\<close>

text \<open>
  A JavaScript number is a finite value, \<open>NaN\<close> or one of the two infinities. Finite
  values are kept as exact rationals: the rounding of IEEE doubles is not part of this
  model, so \<open>0.85\<close> is \<open>17/20\<close> and \<open>0.015\<close> is \<open>3/200\<close>. The operations below
  are the ones the two search routines use, with the special values handled as
  ECMAScript does.
\<close>

datatype jsnum = Fin rat | NaN | PosInf | NegInf

fun isFinite :: "jsnum \<Rightarrow> bool" where
  "isFinite (Fin _) = True"
| "isFinite _ = False"

fun Math_min :: "jsnum \<Rightarrow> jsnum \<Rightarrow> jsnum" where
  "Math_min NaN _ = NaN"
| "Math_min _ NaN = NaN"
| "Math_min NegInf _ = NegInf"
| "Math_min _ NegInf = NegInf"
| "Math_min PosInf y = y"
| "Math_min x PosInf = x"
| "Math_min (Fin a) (Fin b) = Fin (min a b)"

fun Math_max :: "jsnum \<Rightarrow> jsnum \<Rightarrow> jsnum" where
  "Math_max NaN _ = NaN"
| "Math_max _ NaN = NaN"
| "Math_max PosInf _ = PosInf"
| "Math_max _ PosInf = PosInf"
| "Math_max NegInf y = y"
| "Math_max x NegInf = x"
| "Math_max (Fin a) (Fin b) = Fin (max a b)"

fun js_add :: "jsnum \<Rightarrow> jsnum \<Rightarrow> jsnum" where
  "js_add NaN _ = NaN"
| "js_add _ NaN = NaN"
| "js_add PosInf NegInf = NaN"
| "js_add NegInf PosInf = NaN"
| "js_add PosInf _ = PosInf"
| "js_add _ PosInf = PosInf"
| "js_add NegInf _ = NegInf"
| "js_add _ NegInf = NegInf"
| "js_add (Fin a) (Fin b) = Fin (a + b)"

fun js_neg :: "jsnum \<Rightarrow> jsnum" where
  "js_neg (Fin a) = Fin (- a)"
| "js_neg NaN = NaN"
| "js_neg PosInf = NegInf"
| "js_neg NegInf = PosInf"

definition js_sub :: "jsnum \<Rightarrow> jsnum \<Rightarrow> jsnum" where
  "js_sub x y = js_add x (js_neg y)"

text \<open>\<open>x * c\<close> and \<open>x / c\<close> for a finite constant \<open>c > 0\<close> (here \<open>100\<close> and \<open>2\<close>).\<close>

fun js_scale :: "jsnum \<Rightarrow> rat \<Rightarrow> jsnum" where
  "js_scale (Fin a) c = Fin (a * c)"
| "js_scale x c = x"

text \<open>\<open>x > y\<close>: false as soon as one side is \<open>NaN\<close>.\<close>

fun js_gt :: "jsnum \<Rightarrow> jsnum \<Rightarrow> bool" where
  "js_gt NaN _ = False"
| "js_gt _ NaN = False"
| "js_gt (Fin a) (Fin b) = (a > b)"
| "js_gt PosInf PosInf = False"
| "js_gt PosInf _ = True"
| "js_gt NegInf _ = False"
| "js_gt (Fin a) NegInf = True"
| "js_gt (Fin a) PosInf = False"

text \<open>\<open>Math.round\<close>: the nearest integer, halves going up.\<close>

fun Math_round :: "jsnum \<Rightarrow> jsnum" where
  "Math_round (Fin a) = Fin (of_int \<lfloor>a + 1 / 2\<rfloor>)"
| "Math_round x = x"

section \<open>The batch tool: data\<close>

text \<open>
  A Node \<open>Buffer\<close> is a list of bytes; \<open>buf.length\<close> is its length. The same type
  stands for the browser's \<open>Blob\<close>, whose \<open>size\<close> is the length.
\<close>

type_synonym buffer = "8 word list"

text \<open>
  Every way the two tools stop without a result: the calls of \<open>die\<close> (the process
  exits), a rejected encode of the external encoder, the browser's failed export of a
  canvas, and the read of a field of \<open>null\<close>.
\<close>

datatype error =
    MissingValue string
  | UnknownOption string
  | InvalidQuality
  | InvalidSubsample string
  | InvalidMaxSize string
  | EncodeFailure
  | ExportFailure
  | TypeError

text \<open>
  The three encoder knobs, as in the entries of \<open>variants\<close> and in the \<open>used\<close> field of
  a result. The \<open>args\<close> object of \<open>parseArgs\<close> has the same three fields among its own,
  so it is the extension of this record. Its field \<open>help\<close> is \<open>help_flag\<close> here (\<open>False\<close>
  while the source leaves it undefined), and \<open>maxSizeBytes\<close> is \<open>None\<close> for \<open>null\<close>.
\<close>

record variant =
  subsample :: string
  progressive :: bool
  stripMetadata :: bool

record args = variant +
  compress :: bool
  quality :: jsnum
  maxSize :: "string option"
  fitUnder :: "string option"
  preserveResolution :: bool
  minQuality :: jsnum
  outDir :: string
  suffix :: string
  overwrite :: bool
  recursive :: bool
  inputs :: "string list"
  help_flag :: bool
  maxSizeBytes :: "nat option"

text \<open>The options object built by \<open>jpegOpts\<close> for the encoder.\<close>

record jpeg_opts =
  jpeg_quality :: jsnum
  jpeg_progressive :: bool
  chromaSubsampling :: string
  mozjpeg :: bool
  optimizeCoding :: bool

text \<open>
  The external encoder (\<open>sharp\<close>): from the input path, whether \<open>withMetadata()\<close> was
  called, and the JPEG options, to the encoded buffer; \<open>None\<close> when the promise
  rejects. It is a parameter of the model.
\<close>

type_synonym sharp = "string \<Rightarrow> bool \<Rightarrow> jpeg_opts \<Rightarrow> buffer option"

text \<open>
  One call of \<open>encodeAtQuality\<close>: the fidelity it was given, what it handed to the
  encoder, and what came back. The log of these calls is the state that the model
  threads through the search.
\<close>

record encode_call =
  call_path :: string
  call_quality :: jsnum
  call_withMetadata :: bool
  call_opts :: jpeg_opts
  call_out :: "buffer option"

type_synonym trace = "encode_call list"

text \<open>What both search routines return: the fidelity used and the verdict.\<close>

record outcome =
  usedQuality :: jsnum
  pass :: bool

record cli_result = outcome +
  buf :: buffer
  used :: variant

section \<open>The batch tool: encoding and the search\<close>

definition clamp01 :: "jsnum \<Rightarrow> error + jsnum" where
  "clamp01 x =
     (if \<not> isFinite x then Inl InvalidQuality
      else Inr (Math_max (Fin (1 / 10)) (Math_min (Fin 1) x)))"

definition jpegOpts :: "'a args_scheme \<Rightarrow> jsnum \<Rightarrow> jpeg_opts" where
  "jpegOpts a quality01 =
     \<lparr> jpeg_quality = Math_round (js_scale quality01 100),
       jpeg_progressive = progressive a,
       chromaSubsampling = subsample a,
       mozjpeg = True,
       optimizeCoding = True \<rparr>"

definition encodeAtQuality ::
  "sharp \<Rightarrow> string \<Rightarrow> args \<Rightarrow> jsnum \<Rightarrow> variant option \<Rightarrow> trace \<Rightarrow> (error + buffer) \<times> trace"
where
  "encodeAtQuality S inputPath a quality01 overrides tr =
     (let strip = (case overrides of Some v \<Rightarrow> stripMetadata v | None \<Rightarrow> stripMetadata a);
          prog = (case overrides of Some v \<Rightarrow> progressive v | None \<Rightarrow> progressive a);
          sub = (case overrides of Some v \<Rightarrow> subsample v | None \<Rightarrow> subsample a);
          opts = jpegOpts (a\<lparr>progressive := prog, subsample := sub\<rparr>) quality01;
          out = S inputPath (\<not> strip) opts;
          tr' = tr @ [\<lparr> call_path = inputPath, call_quality = quality01,
                        call_withMetadata = (\<not> strip), call_opts = opts, call_out = out \<rparr>]
      in (case out of None \<Rightarrow> (Inl EncodeFailure, tr') | Some b \<Rightarrow> (Inr b, tr')))"

definition variants :: "variant list" where
  "variants =
     [ \<lparr> subsample = ''4:4:4'', progressive = False, stripMetadata = True \<rparr>,
       \<lparr> subsample = ''4:4:4'', progressive = True, stripMetadata = True \<rparr>,
       \<lparr> subsample = ''4:2:0'', progressive = False, stripMetadata = True \<rparr>,
       \<lparr> subsample = ''4:2:0'', progressive = True, stripMetadata = True \<rparr> ]"

text \<open>
  The inner loop of \<open>compressWithTarget\<close>,
  \<^verbatim>\<open>for (let i = 0; i < 10 && hi - lo > 0.015; i++)\<close>, with its variables \<open>i\<close>, \<open>lo\<close>,
  \<open>hi\<close>, \<open>best\<close>, \<open>bestQ\<close>. It returns \<open>best\<close> and \<open>bestQ\<close> as the loop leaves them.
\<close>

function search_loop ::
  "sharp \<Rightarrow> string \<Rightarrow> args \<Rightarrow> nat \<Rightarrow> variant \<Rightarrow> nat \<Rightarrow> jsnum \<Rightarrow> jsnum \<Rightarrow> buffer \<Rightarrow> jsnum
     \<Rightarrow> trace \<Rightarrow> (error + buffer \<times> jsnum) \<times> trace"
where
  "search_loop S inputPath a target v i lo hi best bestQ tr =
     (if i < 10 \<and> js_gt (js_sub hi lo) (Fin (3 / 200)) then
        (let mid = js_scale (js_add lo hi) (1 / 2) in
         case encodeAtQuality S inputPath a mid (Some v) tr of
           (Inl e, tr') \<Rightarrow> (Inl e, tr')
         | (Inr b, tr') \<Rightarrow>
             if length b \<le> target
             then search_loop S inputPath a target v (i + 1) mid hi b mid tr'
             else search_loop S inputPath a target v (i + 1) lo mid best bestQ tr')
      else (Inr (best, bestQ), tr))"
  by pat_completeness auto
termination
  by (relation "measure (\<lambda>(S, inputPath, a, target, v, i, lo, hi, best, bestQ, tr). 10 - i)") auto

declare search_loop.simps [simp del]

type_synonym candidate = "buffer \<times> jsnum \<times> variant"

text \<open>
  The line
  \<^verbatim>\<open>if (!bestClarity || atBase.length < bestClarity.buf.length) bestClarity = {...}\<close>:
  the new value of \<open>bestClarity\<close>.
\<close>

definition track_bestClarity ::
  "candidate option \<Rightarrow> buffer \<Rightarrow> jsnum \<Rightarrow> variant \<Rightarrow> candidate option"
where
  "track_bestClarity bestClarity atBase baseQ v =
     (case bestClarity of
        None \<Rightarrow> Some (atBase, baseQ, v)
      | Some (b, q, u) \<Rightarrow>
          if length atBase < length b then Some (atBase, baseQ, v) else bestClarity)"

text \<open>
  The outer loop \<^verbatim>\<open>for (const v of variants)\<close> with its variables \<open>bestFit\<close> and
  \<open>bestClarity\<close> (each \<open>null\<close> or an object \<open>{buf, q, used}\<close>), and the \<open>return\<close> after
  the loop. A \<open>return\<close> inside the loop ends the recursion; the assignment to \<open>bestFit\<close>
  just before the first \<open>return\<close> is dead and left out.
\<close>

fun variants_loop ::
  "sharp \<Rightarrow> string \<Rightarrow> args \<Rightarrow> nat \<Rightarrow> jsnum \<Rightarrow> jsnum \<Rightarrow> variant list
     \<Rightarrow> candidate option \<Rightarrow> candidate option \<Rightarrow> trace \<Rightarrow> (error + cli_result) \<times> trace"
where
  "variants_loop S inputPath a target baseQ minQ [] bestFit bestClarity tr =
     (case bestClarity of
        None \<Rightarrow> (Inl TypeError, tr)
      | Some (b, q, u) \<Rightarrow> (Inr \<lparr> usedQuality = q, pass = False, buf = b, used = u \<rparr>, tr))"
| "variants_loop S inputPath a target baseQ minQ (v # vs) bestFit bestClarity tr =
     (case encodeAtQuality S inputPath a baseQ (Some v) tr of
        (Inl e, tr1) \<Rightarrow> (Inl e, tr1)
      | (Inr atBase, tr1) \<Rightarrow>
          (let bestClarity' = track_bestClarity bestClarity atBase baseQ v
           in if length atBase \<le> target
              then (Inr \<lparr> usedQuality = baseQ, pass = True, buf = atBase, used = v \<rparr>, tr1)
              else
                (case encodeAtQuality S inputPath a minQ (Some v) tr1 of
                   (Inl e, tr2) \<Rightarrow> (Inl e, tr2)
                 | (Inr atMin, tr2) \<Rightarrow>
                     if length atMin > target
                     then variants_loop S inputPath a target baseQ minQ vs bestFit bestClarity' tr2
                     else
                       (case search_loop S inputPath a target v 0 minQ baseQ atMin minQ tr2 of
                          (Inl e, tr3) \<Rightarrow> (Inl e, tr3)
                        | (Inr (best, bestQ), tr3) \<Rightarrow>
                            variants_loop S inputPath a target baseQ minQ vs
                              (case bestFit of None \<Rightarrow> Some (best, bestQ, v) | Some f \<Rightarrow> bestFit)
                              bestClarity' tr3))))"

text \<open>
  \<open>compressWithTarget\<close>. The test \<open>!target\<close> holds for \<open>null\<close> and for \<open>0\<close>; \<open>unset\<close>
  is the body of that \<open>if\<close>: one encode with no overrides, at \<open>args.quality\<close> as it
  stands. Otherwise both fidelities go through \<open>clamp01\<close> again and the loop runs.
\<close>

definition compressWithTarget ::
  "sharp \<Rightarrow> string \<Rightarrow> args \<Rightarrow> trace \<Rightarrow> (error + cli_result) \<times> trace"
where
  "compressWithTarget S inputPath a tr =
     (let unset =
            (case encodeAtQuality S inputPath a (quality a) None tr of
               (Inl e, tr') \<Rightarrow> (Inl e, tr')
             | (Inr b, tr') \<Rightarrow>
                 (Inr \<lparr> usedQuality = quality a, pass = True, buf = b,
                        used = \<lparr> subsample = subsample a, progressive = progressive a,
                                 stripMetadata = stripMetadata a \<rparr> \<rparr>, tr'))
      in case maxSizeBytes a of
           None \<Rightarrow> unset
         | Some target \<Rightarrow>
             if target = 0 then unset
             else
               (case clamp01 (quality a) of
                  Inl e \<Rightarrow> (Inl e, tr)
                | Inr baseQ \<Rightarrow>
                    (case clamp01 (minQuality a) of
                       Inl e \<Rightarrow> (Inl e, tr)
                     | Inr minQ \<Rightarrow>
                         variants_loop S inputPath a target baseQ minQ variants None None tr)))"

section \<open>The batch tool: the command line\<close>

text \<open>
  Strings are lists of characters. \<open>trim\<close> removes the ASCII white space (tab, line
  feed, vertical tab, form feed, carriage return, space) and \<open>toLowerCase\<close> maps
  \<open>A\<close>..\<open>Z\<close> to \<open>a\<close>..\<open>z\<close>. The built-ins of the source do more on other characters:
  \<open>String.prototype.trim\<close> also removes \<open>U+00A0\<close>, \<open>U+FEFF\<close> and the other Unicode
  spaces, and \<open>String.prototype.toLowerCase\<close> also maps the other capital letters. On
  a string of ASCII characters, \<open>is_ascii\<close>, the two definitions are the built-ins,
  and what is stated below about the forms of a size is stated for such strings.
\<close>

definition is_ascii :: "string \<Rightarrow> bool" where
  "is_ascii s = list_all (\<lambda>c. (of_char c :: nat) < 128) s"

definition is_space :: "char \<Rightarrow> bool" where
  "is_space c = (of_char c \<in> {9, 10, 11, 12, 13, 32 :: nat})"

definition trim :: "string \<Rightarrow> string" where
  "trim s = rev (dropWhile is_space (rev (dropWhile is_space s)))"

definition lower_char :: "char \<Rightarrow> char" where
  "lower_char c =
     (if 65 \<le> (of_char c :: nat) \<and> (of_char c :: nat) \<le> 90
      then char_of (of_char c + 32 :: nat) else c)"

definition toLowerCase :: "string \<Rightarrow> string" where
  "toLowerCase s = map lower_char s"

text \<open>The class \<open>\d\<close> of the two regular expressions, and the value of a digit.\<close>

definition is_digit :: "char \<Rightarrow> bool" where
  "is_digit c = (48 \<le> (of_char c :: nat) \<and> (of_char c :: nat) \<le> 57)"

definition digit_val :: "char \<Rightarrow> nat" where
  "digit_val c = of_char c - 48"

text \<open>\<open>/^\d+$/.test(raw)\<close>.\<close>

definition all_digits :: "string \<Rightarrow> bool" where
  "all_digits raw = (raw \<noteq> [] \<and> list_all is_digit raw)"

text \<open>
  \<open>Number\<close> on a string of digits, and on a string \<open>digits\<close> or \<open>digits.digits\<close>: the
  decimal reading, exact. The source has doubles here: \<open>Number\<close> gives the double
  nearest to the decimal reading, and \<open>n * mult\<close> is a product of doubles. The exact
  reading is the value of the source within these bounds: a natural number below
  \<open>2\<^sup>5\<^sup>3\<close> is a double, and so is its product with \<open>1024\<close>, \<open>1024\<^sup>2\<close> or \<open>1024\<^sup>3\<close> when
  that is below \<open>2\<^sup>5\<^sup>3\<close>; and for \<open>digits.digits\<close> the floor of the exact product is the
  floor of the product of doubles when the digits, read without the point, times the
  factor are below \<open>2\<^sup>5\<^sup>3\<close> (lemma \<open>floor_rounded_reading\<close>). Beyond these bounds the
  source rounds (it reads \<open>9007199254740993\<close> as \<open>9007199254740992\<close>, and
  \<open>0.99999999999999999999kb\<close> as \<open>1024\<close> bytes) and from \<open>309\<close> digits on it gives
  \<open>Infinity\<close>, where the exact reading gives the number written. What is stated below
  about the value of a size is stated within the bounds.
\<close>

definition digits_value :: "string \<Rightarrow> nat" where
  "digits_value ds = foldl (\<lambda>n c. 10 * n + digit_val c) 0 ds"

definition is_decimal :: "string \<Rightarrow> bool" where
  "is_decimal num =
     (takeWhile is_digit num \<noteq> [] \<and>
      (case dropWhile is_digit num of
         [] \<Rightarrow> True
       | c # fp \<Rightarrow> c = CHR ''.'' \<and> all_digits fp))"

definition decimal_value :: "string \<Rightarrow> rat" where
  "decimal_value num =
     (case dropWhile is_digit num of
        [] \<Rightarrow> of_nat (digits_value (takeWhile is_digit num))
      | c # fp \<Rightarrow>
          of_nat (digits_value (takeWhile is_digit num))
            + of_nat (digits_value fp) / 10 ^ length fp)"

text \<open>
  \<open>raw.match(/^(\d+(\.\d+)?)(kb|mb|gb)$/)\<close>: the groups \<open>m[1]\<close> and \<open>m[3]\<close>, or \<open>None\<close>
  for \<open>null\<close>. The unit is the last two characters and the number is all that
  precedes them.
\<close>

definition match_size :: "string \<Rightarrow> (string \<times> string) option" where
  "match_size raw =
     (let num = take (length raw - 2) raw;
          unit = drop (length raw - 2) raw
      in if (unit = ''kb'' \<or> unit = ''mb'' \<or> unit = ''gb'') \<and> is_decimal num
         then Some (num, unit) else None)"

definition parseSizeToBytes :: "string \<Rightarrow> error + nat" where
  "parseSizeToBytes s =
     (let raw = toLowerCase (trim s) in
      if all_digits raw then Inr (digits_value raw)
      else
        (case match_size raw of
           None \<Rightarrow> Inl (InvalidMaxSize s)
         | Some (m1, unit) \<Rightarrow>
             (let n = decimal_value m1;
                  mult = (if unit = ''kb'' then 1024
                          else if unit = ''mb'' then 1024 * 1024
                          else 1024 * 1024 * 1024)
              in Inr (nat \<lfloor>n * mult\<rfloor>))))"

definition normalizeSubsample :: "string \<Rightarrow> error + string" where
  "normalizeSubsample s =
     (let v = trim s in
      if v = ''4:4:4'' \<or> v = ''444'' then Inr ''4:4:4''
      else if v = ''4:2:0'' \<or> v = ''420'' then Inr ''4:2:0''
      else Inl (InvalidSubsample v))"

text \<open>
  \<open>a.split("=", 2)\<close> destructured into \<open>[k, inlineV]\<close>: the text before the first \<open>=\<close>,
  and the text between the first and the second \<open>=\<close> (\<open>None\<close> for \<open>undefined\<close>, when there
  is no \<open>=\<close>).
\<close>

definition split_eq :: "string \<Rightarrow> string \<times> string option" where
  "split_eq a =
     (case dropWhile (\<lambda>c. c \<noteq> CHR ''='') a of
        [] \<Rightarrow> (a, None)
      | c # r \<Rightarrow> (takeWhile (\<lambda>c. c \<noteq> CHR ''='') a,
                  Some (takeWhile (\<lambda>c. c \<noteq> CHR ''='') r)))"

text \<open>
  The closure \<open>nextVal\<close>: the inline value, or else the next argument, which it takes
  from the iterator; the second component is what the iterator has left.
\<close>

definition nextVal :: "string \<Rightarrow> string option \<Rightarrow> string list \<Rightarrow> error + string \<times> string list" where
  "nextVal k inlineV rest =
     (case inlineV of
        Some v \<Rightarrow> Inr (v, rest)
      | None \<Rightarrow> (case rest of [] \<Rightarrow> Inl (MissingValue k) | n # rest' \<Rightarrow> Inr (n, rest')))"

definition startsWith :: "string \<Rightarrow> string \<Rightarrow> bool" where
  "startsWith a pre = (take (length pre) a = pre)"

definition initial_args :: args where
  "initial_args =
     \<lparr> subsample = ''4:4:4'', progressive = False, stripMetadata = True,
       compress = True, quality = Fin (17 / 20), maxSize = None, fitUnder = None,
       preserveResolution = True, minQuality = Fin (11 / 20), outDir = ''out'',
       suffix = ''-uscis'', overwrite = False, recursive = False, inputs = [],
       help_flag = False, maxSizeBytes = None \<rparr>"

text \<open>
  The loop of \<open>parseArgs\<close> over \<open>argv\<close>. The built-in \<open>Number\<close> is the parameter \<open>N\<close>.
\<close>

function parseArgs_loop :: "(string \<Rightarrow> jsnum) \<Rightarrow> string list \<Rightarrow> args \<Rightarrow> error + args" where
  "parseArgs_loop N [] a = Inr a"
| "parseArgs_loop N (cur # rest) a =
     (if \<not> startsWith cur ''--'' then parseArgs_loop N rest (a\<lparr>inputs := inputs a @ [cur]\<rparr>)
      else
        (let k = fst (split_eq cur); inlineV = snd (split_eq cur) in
         if k = ''--help'' then parseArgs_loop N rest (a\<lparr>help_flag := True\<rparr>)
         else if k = ''--compress'' then parseArgs_loop N rest (a\<lparr>compress := True\<rparr>)
         else if k = ''--no-compress'' then parseArgs_loop N rest (a\<lparr>compress := False\<rparr>)
         else if k = ''--quality'' then
           (case nextVal k inlineV rest of
              Inl e \<Rightarrow> Inl e
            | Inr (v, rest') \<Rightarrow> parseArgs_loop N rest' (a\<lparr>quality := N v\<rparr>))
         else if k = ''--max-size'' then
           (case nextVal k inlineV rest of
              Inl e \<Rightarrow> Inl e
            | Inr (v, rest') \<Rightarrow> parseArgs_loop N rest' (a\<lparr>maxSize := Some v\<rparr>))
         else if k = ''--fit-under'' then
           (case nextVal k inlineV rest of
              Inl e \<Rightarrow> Inl e
            | Inr (v, rest') \<Rightarrow> parseArgs_loop N rest' (a\<lparr>fitUnder := Some v\<rparr>))
         else if k = ''--preserve-resolution'' then
           parseArgs_loop N rest (a\<lparr>preserveResolution := True\<rparr>)
         else if k = ''--subsample'' then
           (case nextVal k inlineV rest of
              Inl e \<Rightarrow> Inl e
            | Inr (v, rest') \<Rightarrow> parseArgs_loop N rest' (a\<lparr>subsample := v\<rparr>))
         else if k = ''--progressive'' then parseArgs_loop N rest (a\<lparr>progressive := True\<rparr>)
         else if k = ''--strip-metadata'' then parseArgs_loop N rest (a\<lparr>stripMetadata := True\<rparr>)
         else if k = ''--keep-metadata'' then parseArgs_loop N rest (a\<lparr>stripMetadata := False\<rparr>)
         else if k = ''--min-quality'' then
           (case nextVal k inlineV rest of
              Inl e \<Rightarrow> Inl e
            | Inr (v, rest') \<Rightarrow> parseArgs_loop N rest' (a\<lparr>minQuality := N v\<rparr>))
         else if k = ''--out-dir'' then
           (case nextVal k inlineV rest of
              Inl e \<Rightarrow> Inl e
            | Inr (v, rest') \<Rightarrow> parseArgs_loop N rest' (a\<lparr>outDir := v\<rparr>))
         else if k = ''--suffix'' then
           (case nextVal k inlineV rest of
              Inl e \<Rightarrow> Inl e
            | Inr (v, rest') \<Rightarrow> parseArgs_loop N rest' (a\<lparr>suffix := v\<rparr>))
         else if k = ''--overwrite'' then parseArgs_loop N rest (a\<lparr>overwrite := True\<rparr>)
         else if k = ''--recursive'' then parseArgs_loop N rest (a\<lparr>recursive := True\<rparr>)
         else Inl (UnknownOption k)))"
  by pat_completeness auto
termination
  by (relation "measure (\<lambda>(N, argv, a). length argv)")
     (auto simp: nextVal_def split: option.splits list.splits)

declare parseArgs_loop.simps [simp del]

text \<open>
  \<open>parseArgs\<close>: the loop, then the four lines that normalise its result. \<open>size\<close> is
  \<open>args.fitUnder ?? args.maxSize\<close>, and the test \<open>size ? ... : null\<close> fails for \<open>null\<close>
  and for the empty string.
\<close>

definition parseArgs :: "(string \<Rightarrow> jsnum) \<Rightarrow> string list \<Rightarrow> error + args" where
  "parseArgs N argv =
     (case parseArgs_loop N argv initial_args of
        Inl e \<Rightarrow> Inl e
      | Inr a \<Rightarrow>
          (case clamp01 (quality a) of
             Inl e \<Rightarrow> Inl e
           | Inr q \<Rightarrow>
               (case clamp01 (minQuality a) of
                  Inl e \<Rightarrow> Inl e
                | Inr mq \<Rightarrow>
                    (case normalizeSubsample (subsample a) of
                       Inl e \<Rightarrow> Inl e
                     | Inr sub \<Rightarrow>
                         (let a' = a\<lparr>quality := q, minQuality := mq, subsample := sub\<rparr>;
                              size = (case fitUnder a' of Some f \<Rightarrow> Some f | None \<Rightarrow> maxSize a')
                          in case size of
                               None \<Rightarrow> Inr (a'\<lparr>maxSizeBytes := None\<rparr>)
                             | Some s \<Rightarrow>
                                 if s = [] then Inr (a'\<lparr>maxSizeBytes := None\<rparr>)
                                 else
                                   (case parseSizeToBytes s of
                                      Inl e \<Rightarrow> Inl e
                                    | Inr n \<Rightarrow> Inr (a'\<lparr>maxSizeBytes := Some n\<rparr>)))))))"

section \<open>The browser tool: the search on a canvas\<close>

text \<open>
  \<open>canvas.toBlob\<close> for \<open>image/jpeg\<close> at a quality: the blob handed to the callback, or
  \<open>None\<close> for \<open>null\<close>. It is a parameter, and the log of its calls is threaded through
  the search as in the batch tool.
\<close>

type_synonym toBlob = "jsnum \<Rightarrow> buffer option"

record blob_call =
  blob_quality :: jsnum
  blob_out :: "buffer option"

type_synonym blob_trace = "blob_call list"

record web_result = outcome +
  blob :: buffer
  tried :: nat

definition clamp :: "jsnum \<Rightarrow> jsnum \<Rightarrow> jsnum \<Rightarrow> jsnum" where
  "clamp n mn mx = Math_max mn (Math_min mx n)"

definition canvasToJpegBlob :: "toBlob \<Rightarrow> jsnum \<Rightarrow> blob_trace \<Rightarrow> (error + buffer) \<times> blob_trace" where
  "canvasToJpegBlob T q tr =
     (let out = T q;
          tr' = tr @ [\<lparr> blob_quality = q, blob_out = out \<rparr>]
      in (case out of None \<Rightarrow> (Inl ExportFailure, tr') | Some b \<Rightarrow> (Inr b, tr')))"

text \<open>
  The loop of \<open>encodeCanvasFitUnder\<close>,
  \<^verbatim>\<open>for (let i = 0; i < 10 && hi - lo > 0.02; i++)\<close>, with \<open>bestBlob\<close>, \<open>bestQ\<close> and the
  counter \<open>tried\<close>.
\<close>

function fit_loop ::
  "toBlob \<Rightarrow> nat \<Rightarrow> nat \<Rightarrow> jsnum \<Rightarrow> jsnum \<Rightarrow> buffer \<Rightarrow> jsnum \<Rightarrow> nat \<Rightarrow> blob_trace
     \<Rightarrow> (error + buffer \<times> jsnum \<times> nat) \<times> blob_trace"
where
  "fit_loop T targetBytes i lo hi bestBlob bestQ n tr =
     (if i < 10 \<and> js_gt (js_sub hi lo) (Fin (1 / 50)) then
        (let mid = js_scale (js_add lo hi) (1 / 2) in
         case canvasToJpegBlob T mid tr of
           (Inl e, tr') \<Rightarrow> (Inl e, tr')
         | (Inr b, tr') \<Rightarrow>
             if length b \<le> targetBytes
             then fit_loop T targetBytes (i + 1) mid hi b mid (n + 1) tr'
             else fit_loop T targetBytes (i + 1) lo mid bestBlob bestQ (n + 1) tr')
      else (Inr (bestBlob, bestQ, n), tr))"
  by pat_completeness auto
termination
  by (relation "measure (\<lambda>(T, targetBytes, i, lo, hi, bestBlob, bestQ, n, tr). 10 - i)") auto

declare fit_loop.simps [simp del]

text \<open>
  \<open>encodeCanvasFitUnder(canvas, opts)\<close>. The three fields of \<open>opts\<close> are three arguments,
  \<open>None\<close> for a field that is \<open>undefined\<close> or \<open>null\<close>. The callers compute \<open>targetBytes\<close> with
  \<open>Math.floor\<close> from a positive setting, so it is a natural number here; \<open>!targetBytes\<close>
  holds for \<open>null\<close> and for \<open>0\<close>.
\<close>

definition encodeCanvasFitUnder ::
  "toBlob \<Rightarrow> nat option \<Rightarrow> jsnum option \<Rightarrow> jsnum option \<Rightarrow> blob_trace
     \<Rightarrow> (error + web_result) \<times> blob_trace"
where
  "encodeCanvasFitUnder T targetBytes optBase optMin tr =
     (let baseQuality = clamp (case optBase of None \<Rightarrow> Fin (17 / 20) | Some q \<Rightarrow> q) (Fin (1 / 10)) (Fin 1);
          minQuality = clamp (case optMin of None \<Rightarrow> Fin (11 / 20) | Some q \<Rightarrow> q) (Fin (1 / 10)) (Fin 1);
          oneshot =
            (case canvasToJpegBlob T baseQuality tr of
               (Inl e, tr') \<Rightarrow> (Inl e, tr')
             | (Inr b, tr') \<Rightarrow>
                 (Inr \<lparr> usedQuality = baseQuality, pass = True, blob = b, tried = 1 \<rparr>, tr'))
      in case targetBytes of
           None \<Rightarrow> oneshot
         | Some target \<Rightarrow>
             if target = 0 then oneshot
             else
               (case canvasToJpegBlob T baseQuality tr of
                  (Inl e, tr1) \<Rightarrow> (Inl e, tr1)
                | (Inr b, tr1) \<Rightarrow>
                    if length b \<le> target
                    then (Inr \<lparr> usedQuality = baseQuality, pass = True, blob = b, tried = 1 \<rparr>, tr1)
                    else
                      (case canvasToJpegBlob T minQuality tr1 of
                         (Inl e, tr2) \<Rightarrow> (Inl e, tr2)
                       | (Inr bestBlob, tr2) \<Rightarrow>
                           if length bestBlob > target
                           then (Inr \<lparr> usedQuality = minQuality, pass = False,
                                        blob = bestBlob, tried = 2 \<rparr>, tr2)
                           else
                             (case fit_loop T target 0 minQuality baseQuality bestBlob minQuality 2 tr2 of
                                (Inl e, tr3) \<Rightarrow> (Inl e, tr3)
                              | (Inr (best, bestQ, n), tr3) \<Rightarrow>
                                  (Inr \<lparr> usedQuality = bestQ, pass = True,
                                         blob = best, tried = n \<rparr>, tr3)))))"

section \<open>Stub encoders and the scenarios\<close>

text \<open>
  The stub encoder of the scenarios: the size of the output is
  \<open>floor (1,000,000 \<times> fidelity)\<close>, whatever the variant. The batch tool hands the encoder
  the integer quality \<open>Math.round (fidelity \<times> 100)\<close>, so there the fidelity that the stub
  sees is that quality over \<open>100\<close>. The browser hands over the fidelity itself.
\<close>

definition stub_sharp :: sharp where
  "stub_sharp inputPath withMeta opts =
     (case jpeg_quality opts of
        Fin q \<Rightarrow> Some (replicate (nat \<lfloor>1000000 * (q / 100)\<rfloor>) 0)
      | _ \<Rightarrow> None)"

definition stub_toBlob :: toBlob where
  "stub_toBlob q =
     (case q of
        Fin r \<Rightarrow> Some (replicate (nat \<lfloor>1000000 * r\<rfloor>) 0)
      | _ \<Rightarrow> None)"

text \<open>
  A stand-in for the built-in \<open>Number\<close>, used to run concrete command lines: it reads
  the plain decimal literals \<open>digits\<close> and \<open>digits.digits\<close>, as \<open>Number\<close> does, and is
  \<open>NaN\<close> on every other string. It is applied to such literals only.
\<close>

definition Number_decimal :: "string \<Rightarrow> jsnum" where
  "Number_decimal s = (if is_decimal s then Fin (decimal_value s) else NaN)"

text \<open>
  The command lines of the scenarios, and the \<open>args\<close> that \<open>parseArgs\<close> makes of them:
  the defaults (fidelity \<open>0.85\<close>, least fidelity \<open>0.55\<close>, \<open>4:4:4\<close>, not progressive,
  metadata stripped) with one input and the target. Scenario A has the target
  \<open>600,000\<close>, scenario B the target \<open>100\<close>, scenario C none.
\<close>

definition scenario_A_argv :: "string list" where
  "scenario_A_argv =
     [''--fit-under'', ''600000'', ''--quality'', ''0.85'', ''--min-quality'', ''0.55'', ''scan.jpg'']"

definition scenario_A_args :: args where
  "scenario_A_args =
     initial_args\<lparr>fitUnder := Some ''600000'', inputs := [''scan.jpg''], maxSizeBytes := Some 600000\<rparr>"

definition scenario_B_argv :: "string list" where
  "scenario_B_argv =
     [''--fit-under'', ''100'', ''--quality'', ''0.85'', ''--min-quality'', ''0.55'', ''scan.jpg'']"

definition scenario_B_args :: args where
  "scenario_B_args =
     initial_args\<lparr>fitUnder := Some ''100'', inputs := [''scan.jpg''], maxSizeBytes := Some 100\<rparr>"

definition scenario_C_argv :: "string list" where
  "scenario_C_argv = [''--quality'', ''0.85'', ''scan.jpg'']"

definition scenario_C_args :: args where
  "scenario_C_args = initial_args\<lparr>inputs := [''scan.jpg'']\<rparr>"

text \<open>
  Five more command lines: one whose least fidelity is above its base fidelity, one
  whose two fidelities are outside \<open>[0.1, 1.0]\<close>, one whose size is \<open>0\<close>, one with no
  target and none of the default knobs, and one whose target fits at the base fidelity.
\<close>

definition inverted_argv :: "string list" where
  "inverted_argv =
     [''--quality'', ''0.5'', ''--min-quality'', ''0.9'', ''--fit-under'', ''100'', ''scan.jpg'']"

definition inverted_args :: args where
  "inverted_args =
     initial_args\<lparr>quality := Fin (1 / 2), minQuality := Fin (9 / 10), fitUnder := Some ''100'',
                    inputs := [''scan.jpg''], maxSizeBytes := Some 100\<rparr>"

definition wide_argv :: "string list" where
  "wide_argv =
     [''--quality'', ''7'', ''--min-quality'', ''0.01'', ''--fit-under'', ''600000'', ''scan.jpg'']"

definition wide_args :: args where
  "wide_args =
     initial_args\<lparr>quality := Fin 1, minQuality := Fin (1 / 10), fitUnder := Some ''600000'',
                    inputs := [''scan.jpg''], maxSizeBytes := Some 600000\<rparr>"

definition zero_argv :: "string list" where
  "zero_argv = [''--max-size'', ''0'', ''scan.jpg'']"

definition zero_args :: args where
  "zero_args =
     initial_args\<lparr>maxSize := Some ''0'', inputs := [''scan.jpg''], maxSizeBytes := Some 0\<rparr>"

definition custom_argv :: "string list" where
  "custom_argv = [''--subsample'', ''4:2:0'', ''--progressive'', ''--keep-metadata'', ''scan.jpg'']"

definition custom_args :: args where
  "custom_args =
     initial_args\<lparr>subsample := ''4:2:0'', progressive := True, stripMetadata := False,
                    inputs := [''scan.jpg'']\<rparr>"

definition roomy_argv :: "string list" where
  "roomy_argv = [''--max-size'', ''900000'', ''scan.jpg'']"

definition roomy_args :: args where
  "roomy_args =
     initial_args\<lparr>maxSize := Some ''900000'', inputs := [''scan.jpg''],
                    maxSizeBytes := Some 900000\<rparr>"

text \<open>What a call of \<open>encodeAtQuality\<close> returned, as a size.\<close>

definition call_size :: "encode_call \<Rightarrow> nat option" where
  "call_size c = map_option length (call_out c)"

text \<open>A fidelity that the encoder may be given: finite and within \<open>[0.1, 1.0]\<close>.\<close>

fun valid_fidelity :: "jsnum \<Rightarrow> bool" where
  "valid_fidelity (Fin q) = (1 / 10 \<le> q \<and> q \<le> 1)"
| "valid_fidelity _ = False"

text \<open>
  What \<open>encodeAtQuality\<close> does when its overrides are the variant \<open>v\<close>: every knob comes
  from \<open>v\<close>, so the options, the call of the encoder and the logged call do not depend on
  \<open>args\<close>.
\<close>

definition variant_opts :: "variant \<Rightarrow> jsnum \<Rightarrow> jpeg_opts" where
  "variant_opts v q =
     \<lparr> jpeg_quality = Math_round (js_scale q 100),
       jpeg_progressive = progressive v,
       chromaSubsampling = subsample v,
       mozjpeg = True,
       optimizeCoding = True \<rparr>"

definition variant_encode :: "sharp \<Rightarrow> string \<Rightarrow> variant \<Rightarrow> jsnum \<Rightarrow> buffer option" where
  "variant_encode S inputPath v q = S inputPath (\<not> stripMetadata v) (variant_opts v q)"

definition variant_call :: "sharp \<Rightarrow> string \<Rightarrow> variant \<Rightarrow> jsnum \<Rightarrow> encode_call" where
  "variant_call S inputPath v q =
     \<lparr> call_path = inputPath, call_quality = q, call_withMetadata = (\<not> stripMetadata v),
       call_opts = variant_opts v q, call_out = variant_encode S inputPath v q \<rparr>"

text \<open>The midpoint \<open>(lo + hi) / 2\<close> of both searches.\<close>

definition midpoint :: "jsnum \<Rightarrow> jsnum \<Rightarrow> jsnum" where
  "midpoint lo hi = js_scale (js_add lo hi) (1 / 2)"

text \<open>
  The factor of a unit, in the words of the specification of the size expressions:
  \<open>kb\<close>, \<open>mb\<close> and \<open>gb\<close> multiply by \<open>1024\<close>, \<open>1024\<^sup>2\<close> and \<open>1024\<^sup>3\<close>.
\<close>

definition unit_factor :: "string \<Rightarrow> nat" where
  "unit_factor u =
     (if u = ''kb'' then 1024 else if u = ''mb'' then 1024 ^ 2
      else if u = ''gb'' then 1024 ^ 3 else 0)"

text \<open>
  A quality that the external encoder may be given: an integer from \<open>10\<close> to \<open>100\<close>, the
  image of \<open>[0.1, 1.0]\<close> under \<open>Math.round (fidelity \<times> 100)\<close>.
\<close>

fun valid_jpeg_quality :: "jsnum \<Rightarrow> bool" where
  "valid_jpeg_quality (Fin k) = (10 \<le> k \<and> k \<le> 100 \<and> of_int \<lfloor>k\<rfloor> = k)"
| "valid_jpeg_quality _ = False"

section \<open>Evaluation rules\<close>

lemma floor_rat_numeral_div [simp]:
  "\<lfloor>numeral a / numeral b :: rat\<rfloor> = numeral a div numeral b"
  by (metis floor_divide_of_int_eq of_int_numeral)

lemma search_loop_stop:
  "\<not> (i < 10 \<and> js_gt (js_sub hi lo) (Fin (3 / 200))) \<Longrightarrow>
   search_loop S p a t v i lo hi best bestQ tr = (Inr (best, bestQ), tr)"
  by (subst search_loop.simps) auto

lemma search_loop_step:
  "i < 10 \<Longrightarrow> js_gt (js_sub hi lo) (Fin (3 / 200)) \<Longrightarrow>
   search_loop S p a t v i lo hi best bestQ tr =
     (case encodeAtQuality S p a (js_scale (js_add lo hi) (1 / 2)) (Some v) tr of
        (Inl e, tr') \<Rightarrow> (Inl e, tr')
      | (Inr b, tr') \<Rightarrow>
          if length b \<le> t
          then search_loop S p a t v (i + 1) (js_scale (js_add lo hi) (1 / 2)) hi b
                 (js_scale (js_add lo hi) (1 / 2)) tr'
          else search_loop S p a t v (i + 1) lo (js_scale (js_add lo hi) (1 / 2)) best bestQ tr')"
  by (subst search_loop.simps) (simp add: Let_def)

lemma fit_loop_stop:
  "\<not> (i < 10 \<and> js_gt (js_sub hi lo) (Fin (1 / 50))) \<Longrightarrow>
   fit_loop T t i lo hi bestBlob bestQ n tr = (Inr (bestBlob, bestQ, n), tr)"
  by (subst fit_loop.simps) auto

lemma fit_loop_step:
  "i < 10 \<Longrightarrow> js_gt (js_sub hi lo) (Fin (1 / 50)) \<Longrightarrow>
   fit_loop T t i lo hi bestBlob bestQ n tr =
     (case canvasToJpegBlob T (js_scale (js_add lo hi) (1 / 2)) tr of
        (Inl e, tr') \<Rightarrow> (Inl e, tr')
      | (Inr b, tr') \<Rightarrow>
          if length b \<le> t
          then fit_loop T t (i + 1) (js_scale (js_add lo hi) (1 / 2)) hi b
                 (js_scale (js_add lo hi) (1 / 2)) (n + 1) tr'
          else fit_loop T t (i + 1) lo (js_scale (js_add lo hi) (1 / 2)) bestBlob bestQ (n + 1) tr')"
  by (subst fit_loop.simps) (simp add: Let_def)

lemmas eval_args =
  parseArgs_def parseArgs_loop.simps startsWith_def split_eq_def nextVal_def
  Number_decimal_def is_decimal_def decimal_value_def digits_value_def all_digits_def
  is_digit_def digit_val_def initial_args_def clamp01_def normalizeSubsample_def trim_def
  is_space_def parseSizeToBytes_def toLowerCase_def lower_char_def match_size_def

lemmas eval_cli =
  compressWithTarget_def initial_args_def clamp01_def variants_def search_loop_stop
  search_loop_step encodeAtQuality_def stub_sharp_def jpegOpts_def Let_def js_sub_def
  track_bestClarity_def

lemmas eval_web =
  encodeCanvasFitUnder_def clamp_def canvasToJpegBlob_def stub_toBlob_def fit_loop_stop
  fit_loop_step js_sub_def Let_def

lemmas eval_size =
  parseSizeToBytes_def toLowerCase_def lower_char_def trim_def is_space_def all_digits_def
  is_digit_def digit_val_def digits_value_def match_size_def is_decimal_def decimal_value_def
  unit_factor_def

section \<open>Facts about fidelities\<close>

lemma clamp01_valid: "clamp01 x = Inr y \<Longrightarrow> valid_fidelity y"
  by (cases x) (auto simp: clamp01_def split: if_splits)

lemma clamp01_Fin: "clamp01 (Fin q) = Inr (Fin (max (1 / 10) (min 1 q)))"
  by (simp add: clamp01_def)

lemma clamp01_fixed: "valid_fidelity x \<Longrightarrow> clamp01 x = Inr x"
  by (cases x) (auto simp: clamp01_def)

lemma clamp_valid: "valid_fidelity (clamp (Fin q) (Fin (1 / 10)) (Fin 1))"
  by (simp add: clamp_def)

lemma clamp_fixed: "valid_fidelity x \<Longrightarrow> clamp x (Fin (1 / 10)) (Fin 1) = x"
  by (cases x) (auto simp: clamp_def)

lemma clamp_Fin: "clamp (Fin q) (Fin (1 / 10)) (Fin 1) = Fin (max (1 / 10) (min 1 q))"
  by (simp add: clamp_def)

lemma midpoint_valid:
  "valid_fidelity lo \<Longrightarrow> valid_fidelity hi \<Longrightarrow> valid_fidelity (midpoint lo hi)"
  by (cases lo; cases hi) (auto simp: midpoint_def)

lemma js_gt_threshold_mono:
  "c' \<le> c \<Longrightarrow> js_gt x (Fin c) \<Longrightarrow> js_gt x (Fin c')"
  by (cases x) auto

lemma js_gt_inverted:
  "q \<le> m \<Longrightarrow> \<not> js_gt (js_sub (Fin q) (Fin m)) (Fin (3 / 200))"
  by (simp add: js_sub_def)

lemma round_fidelity_valid:
  assumes "valid_fidelity q"
  shows "valid_jpeg_quality (Math_round (js_scale q 100))"
proof (cases q)
  case (Fin r)
  with assms have r: "1 / 10 \<le> r" "r \<le> 1" by simp_all
  have "(10 :: int) \<le> \<lfloor>r * 100 + 1 / 2\<rfloor>"
    using r by (simp add: le_floor_iff)
  moreover have "\<lfloor>r * 100 + 1 / 2\<rfloor> \<le> (100 :: int)"
    using r by (simp add: floor_le_iff)
  ultimately show ?thesis
    using Fin by simp
qed (use assms in simp_all)

section \<open>Facts about the binary search of the batch tool\<close>

lemma encodeAtQuality_override:
  "encodeAtQuality S p a q (Some v) tr =
     (case variant_encode S p v q of None \<Rightarrow> Inl EncodeFailure | Some b \<Rightarrow> Inr b,
      tr @ [variant_call S p v q])"
  by (simp add: encodeAtQuality_def variant_encode_def variant_call_def variant_opts_def
      jpegOpts_def Let_def split: option.splits)

lemma variant_call_valid:
  "valid_fidelity q \<Longrightarrow>
   valid_fidelity (call_quality (variant_call S p v q)) \<and>
   valid_jpeg_quality (jpeg_quality (call_opts (variant_call S p v q)))"
  by (simp add: variant_call_def variant_opts_def round_fidelity_valid)

lemma search_loop_unfold:
  "search_loop S p a t v i lo hi best bestQ tr =
     (if i < 10 \<and> js_gt (js_sub hi lo) (Fin (3 / 200)) then
        (case variant_encode S p v (midpoint lo hi) of
           None \<Rightarrow> (Inl EncodeFailure, tr @ [variant_call S p v (midpoint lo hi)])
         | Some b \<Rightarrow>
             if length b \<le> t
             then search_loop S p a t v (Suc i) (midpoint lo hi) hi b (midpoint lo hi)
                    (tr @ [variant_call S p v (midpoint lo hi)])
             else search_loop S p a t v (Suc i) lo (midpoint lo hi) best bestQ
                    (tr @ [variant_call S p v (midpoint lo hi)]))
      else (Inr (best, bestQ), tr))"
  by (subst search_loop.simps)
     (simp add: Let_def encodeAtQuality_override midpoint_def split: option.splits)

lemma search_loop_args_irrelevant:
  "search_loop S p a t v i lo hi best bestQ tr = search_loop S p a' t v i lo hi best bestQ tr"
proof (induction "10 - i" arbitrary: i lo hi best bestQ tr)
  case 0
  then show ?case by (simp add: search_loop_stop)
next
  case (Suc n)
  then have n: "n = 10 - Suc i" by simp
  show ?case
    by (subst (1 2) search_loop_unfold) (simp add: Suc.hyps(1)[OF n] split: option.splits)
qed

lemma search_loop_count:
  "length (snd (search_loop S p a t v i lo hi best bestQ tr)) \<le> length tr + (10 - i)"
proof (induction "10 - i" arbitrary: i lo hi best bestQ tr)
  case 0
  then show ?case by (simp add: search_loop_stop)
next
  case (Suc n)
  then have n: "n = 10 - Suc i" by simp
  have i: "i < 10" using Suc.hyps(2) by simp
  show ?case
  proof (cases "js_gt (js_sub hi lo) (Fin (3 / 200))")
    case False
    then show ?thesis by (simp add: search_loop_stop)
  next
    case True
    show ?thesis
    proof (cases "variant_encode S p v (midpoint lo hi)")
      case None
      then show ?thesis using i True by (subst search_loop_unfold) simp
    next
      case (Some b)
      have "length (snd (search_loop S p a t v (Suc i) lo' hi' b' q'
                (tr @ [variant_call S p v (midpoint lo hi)]))) \<le> length tr + (10 - i)"
        for lo' hi' b' q'
        using Suc.hyps(1)[OF n, of lo' hi' b' q' "tr @ [variant_call S p v (midpoint lo hi)]"] i
        by simp
      then show ?thesis
        using i True Some by (subst search_loop_unfold) simp
    qed
  qed
qed

lemma search_loop_mono:
  "length tr \<le> length (snd (search_loop S p a t v i lo hi best bestQ tr))"
proof (induction "10 - i" arbitrary: i lo hi best bestQ tr)
  case 0
  then show ?case by (simp add: search_loop_stop)
next
  case (Suc n)
  then have n: "n = 10 - Suc i" by simp
  have "length tr \<le> length (snd (search_loop S p a t v (Suc i) lo' hi' b' q' (tr @ [c])))"
    for lo' hi' b' q' c
    using Suc.hyps(1)[OF n, of "tr @ [c]" lo' hi' b' q'] by simp
  then show ?case
    by (subst search_loop_unfold) (simp split: option.splits)
qed

lemma search_loop_probes:
  assumes "i < 10" "js_gt (js_sub hi lo) (Fin (3 / 200))"
  shows "length tr < length (snd (search_loop S p a t v i lo hi best bestQ tr))"
proof -
  have "length (tr @ [c]) \<le> length (snd (search_loop S p a t v (Suc i) lo' hi' b' q' (tr @ [c])))"
    for lo' hi' b' q' c
    by (rule search_loop_mono)
  then have "length tr < length (snd (search_loop S p a t v (Suc i) lo' hi' b' q' (tr @ [c])))"
    for lo' hi' b' q' c
    by (metis length_append_singleton less_eq_Suc_le)
  then show ?thesis
    using assms by (subst search_loop_unfold) (simp split: option.splits)
qed

lemma search_loop_extends:
  "\<exists>new. snd (search_loop S p a t v i lo hi best bestQ tr) = tr @ new"
proof (induction "10 - i" arbitrary: i lo hi best bestQ tr)
  case 0
  then show ?case by (simp add: search_loop_stop)
next
  case (Suc n)
  then have n: "n = 10 - Suc i" by simp
  have "\<exists>new. snd (search_loop S p a t v (Suc i) lo' hi' b' q' (tr @ [c])) = tr @ new"
    for lo' hi' b' q' c
    using Suc.hyps(1)[OF n, of lo' hi' b' q' "tr @ [c]"] by auto
  then show ?case
    by (subst search_loop_unfold) (simp split: option.splits)
qed

lemma search_loop_error:
  "search_loop S p a t v i lo hi best bestQ tr = (Inl e, tr') \<Longrightarrow> e = EncodeFailure"
proof (induction "10 - i" arbitrary: i lo hi best bestQ tr)
  case 0
  then show ?case by (simp add: search_loop_stop)
next
  case (Suc n)
  then have n: "n = 10 - Suc i" by simp
  from Suc.prems show ?case
    by (subst (asm) search_loop_unfold)
       (auto split: if_splits option.splits dest: Suc.hyps(1)[OF n])
qed

text \<open>
  An invariant of the log: when every fidelity the search can reach satisfies \<open>Q\<close>, and a
  call at such a fidelity satisfies \<open>P\<close>, then \<open>P\<close> holds of every logged call.
\<close>

lemma search_loop_invariant:
  assumes Q: "Q lo" "Q hi" and mid: "\<And>x y. Q x \<Longrightarrow> Q y \<Longrightarrow> Q (midpoint x y)"
    and P: "\<And>q. Q q \<Longrightarrow> P (variant_call S p v q)"
    and tr: "list_all P tr"
  shows "list_all P (snd (search_loop S p a t v i lo hi best bestQ tr))"
  using Q tr
proof (induction "10 - i" arbitrary: i lo hi best bestQ tr)
  case 0
  then show ?case by (simp add: search_loop_stop)
next
  case (Suc n)
  then have n: "n = 10 - Suc i" by simp
  have m: "Q (midpoint lo hi)" using mid Suc.prems by simp
  have tr': "list_all P (tr @ [variant_call S p v (midpoint lo hi)])"
    using Suc.prems P[OF m] by simp
  show ?case
    using Suc.hyps(1)[OF n m Suc.prems(2) tr'] Suc.hyps(1)[OF n Suc.prems(1) m tr'] Suc.prems tr'
    by (subst search_loop_unfold) (simp split: option.splits)
qed

section \<open>Facts about the loop over the variants\<close>

lemma variants_nonempty: "variants \<noteq> []"
  by (simp add: variants_def)

lemma variants_strip: "list_all stripMetadata variants"
  by (simp add: variants_def)

lemma track_bestClarity_Some: "track_bestClarity bc b q v \<noteq> None"
  by (auto simp: track_bestClarity_def split: option.splits)

lemma variants_loop_Cons:
  "variants_loop S p a t baseQ minQ (v # vs) bf bc tr =
     (case variant_encode S p v baseQ of
        None \<Rightarrow> (Inl EncodeFailure, tr @ [variant_call S p v baseQ])
      | Some atBase \<Rightarrow>
          if length atBase \<le> t
          then (Inr \<lparr> usedQuality = baseQ, pass = True, buf = atBase, used = v \<rparr>,
                tr @ [variant_call S p v baseQ])
          else
            (case variant_encode S p v minQ of
               None \<Rightarrow> (Inl EncodeFailure, tr @ [variant_call S p v baseQ, variant_call S p v minQ])
             | Some atMin \<Rightarrow>
                 if length atMin > t
                 then variants_loop S p a t baseQ minQ vs bf (track_bestClarity bc atBase baseQ v)
                        (tr @ [variant_call S p v baseQ, variant_call S p v minQ])
                 else
                   (case search_loop S p a t v 0 minQ baseQ atMin minQ
                           (tr @ [variant_call S p v baseQ, variant_call S p v minQ]) of
                      (Inl e, tr3) \<Rightarrow> (Inl e, tr3)
                    | (Inr (best, bestQ), tr3) \<Rightarrow>
                        variants_loop S p a t baseQ minQ vs
                          (case bf of None \<Rightarrow> Some (best, bestQ, v) | Some f \<Rightarrow> bf)
                          (track_bestClarity bc atBase baseQ v) tr3)))"
  by (simp add: encodeAtQuality_override Let_def split: option.splits)

lemma variants_loop_bestFit_irrelevant:
  "variants_loop S p a t baseQ minQ vs bf bc tr = variants_loop S p a t baseQ minQ vs bf' bc tr"
proof (induction vs arbitrary: bf bf' bc tr)
  case Nil
  show ?case by simp
next
  case (Cons v vs)
  show ?case
    by (subst (1 2) variants_loop_Cons)
       (auto split: option.splits prod.splits sum.splits intro: Cons.IH)
qed

lemma variants_loop_args_irrelevant:
  "variants_loop S p a t baseQ minQ vs bf bc tr = variants_loop S p a' t baseQ minQ vs bf bc tr"
proof (induction vs arbitrary: bf bc tr)
  case Nil
  show ?case by simp
next
  case (Cons v vs)
  show ?case
    by (subst (1 2) variants_loop_Cons)
       (simp add: Cons.IH search_loop_args_irrelevant [of S p a _ _ _ _ _ _ _ _ a']
          split: option.splits prod.splits sum.splits)
qed

lemma variants_loop_count:
  "length (snd (variants_loop S p a t baseQ minQ vs bf bc tr)) \<le> length tr + 12 * length vs"
proof (induction vs arbitrary: bf bc tr)
  case Nil
  show ?case by (simp split: option.splits)
next
  case (Cons v vs)
  have s: "length (snd (search_loop S p a t v 0 minQ baseQ m minQ (tr @ [c1, c2]))) \<le> length tr + 12"
    for m c1 c2
    using search_loop_count [of S p a t v 0 minQ baseQ m minQ "tr @ [c1, c2]"] by simp
  show ?case
  proof (cases "variant_encode S p v baseQ")
    case None
    then show ?thesis by (subst variants_loop_Cons) simp
  next
    case b: (Some atBase)
    show ?thesis
    proof (cases "variant_encode S p v minQ")
      case None
      then show ?thesis using b by (subst variants_loop_Cons) simp
    next
      case m: (Some atMin)
      let ?tr2 = "tr @ [variant_call S p v baseQ, variant_call S p v minQ]"
      obtain r tr3 where sl: "search_loop S p a t v 0 minQ baseQ atMin minQ ?tr2 = (r, tr3)"
        by (cases "search_loop S p a t v 0 minQ baseQ atMin minQ ?tr2") auto
      have l3: "length tr3 \<le> length tr + 12"
        using s [of atMin "variant_call S p v baseQ" "variant_call S p v minQ"] sl by simp
      have rec: "length (snd (variants_loop S p a t baseQ minQ vs bf' bc' tr3))
                   \<le> length tr + 12 * length (v # vs)" for bf' bc'
        using Cons.IH [of bf' bc' tr3] l3 by simp
      have rec2: "length (snd (variants_loop S p a t baseQ minQ vs bf' bc' ?tr2))
                   \<le> length tr + 12 * length (v # vs)" for bf' bc'
        using Cons.IH [of bf' bc' ?tr2] by simp
      show ?thesis
        using b m sl l3 rec rec2
        by (subst variants_loop_Cons) (auto split: sum.splits)
    qed
  qed
qed

lemma variants_loop_extends:
  "\<exists>new. snd (variants_loop S p a t baseQ minQ vs bf bc tr) = tr @ new"
proof (induction vs arbitrary: bf bc tr)
  case Nil
  show ?case by (simp split: option.splits)
next
  case (Cons v vs)
  let ?tr2 = "tr @ [variant_call S p v baseQ, variant_call S p v minQ]"
  have rec2: "\<exists>new. snd (variants_loop S p a t baseQ minQ vs bf' bc' ?tr2) = tr @ new" for bf' bc'
    using Cons.IH [of bf' bc' ?tr2] by auto
  show ?case
  proof (cases "variant_encode S p v baseQ")
    case None
    then show ?thesis by (subst variants_loop_Cons) simp
  next
    case b: (Some atBase)
    show ?thesis
    proof (cases "variant_encode S p v minQ")
      case None
      then show ?thesis using b by (subst variants_loop_Cons) simp
    next
      case m: (Some atMin)
      obtain r tr3 where sl: "search_loop S p a t v 0 minQ baseQ atMin minQ ?tr2 = (r, tr3)"
        by (cases "search_loop S p a t v 0 minQ baseQ atMin minQ ?tr2") auto
      obtain new3 where n3: "tr3 = tr @ new3"
        using search_loop_extends [of S p a t v 0 minQ baseQ atMin minQ ?tr2] sl by auto
      have rec3: "\<exists>new. snd (variants_loop S p a t baseQ minQ vs bf' bc' tr3) = tr @ new" for bf' bc'
        using Cons.IH [of bf' bc' tr3] n3 by auto
      show ?thesis
        using b m sl n3 rec2 rec3
        by (subst variants_loop_Cons) (auto split: sum.splits)
    qed
  qed
qed

lemma variants_loop_first_encode:
  "\<exists>cs. snd (variants_loop S p a t baseQ minQ (v # vs) bf bc tr) = tr @ variant_call S p v baseQ # cs"
proof -
  let ?c = "variant_call S p v baseQ"
  let ?tr2 = "tr @ [?c, variant_call S p v minQ]"
  have rec2: "\<exists>cs. snd (variants_loop S p a t baseQ minQ vs bf' bc' ?tr2) = tr @ ?c # cs" for bf' bc'
    using variants_loop_extends [of S p a t baseQ minQ vs bf' bc' ?tr2] by auto
  show ?thesis
  proof (cases "variant_encode S p v baseQ")
    case None
    then show ?thesis by (subst variants_loop_Cons) simp
  next
    case b: (Some atBase)
    show ?thesis
    proof (cases "variant_encode S p v minQ")
      case None
      then show ?thesis using b by (subst variants_loop_Cons) simp
    next
      case m: (Some atMin)
      obtain r tr3 where sl: "search_loop S p a t v 0 minQ baseQ atMin minQ ?tr2 = (r, tr3)"
        by (cases "search_loop S p a t v 0 minQ baseQ atMin minQ ?tr2") auto
      obtain new3 where n3: "tr3 = tr @ ?c # new3"
        using search_loop_extends [of S p a t v 0 minQ baseQ atMin minQ ?tr2] sl by auto
      have rec3: "\<exists>cs. snd (variants_loop S p a t baseQ minQ vs bf' bc' tr3) = tr @ ?c # cs" for bf' bc'
        using variants_loop_extends [of S p a t baseQ minQ vs bf' bc' tr3] n3 by auto
      show ?thesis
        using b m sl n3 rec2 rec3
        by (subst variants_loop_Cons) (auto split: sum.splits)
    qed
  qed
qed

lemma variants_loop_pass_fits:
  "variants_loop S p a t baseQ minQ vs bf bc tr = (Inr r, tr') \<Longrightarrow> pass r \<Longrightarrow> length (buf r) \<le> t"
proof (induction vs arbitrary: bf bc tr)
  case Nil
  then show ?case by (auto split: option.splits)
next
  case (Cons v vs)
  from Cons.prems show ?case
    by (subst (asm) variants_loop_Cons)
       (auto split: option.splits if_splits prod.splits sum.splits dest: Cons.IH)
qed

text \<open>
  The loop returns \<open>pass = true\<close> in one place only, the \<open>return\<close> on a base-fidelity
  encode that fits: what a search finds is never returned.
\<close>

lemma variants_loop_pass_only_at_base:
  "variants_loop S p a t baseQ minQ vs bf bc tr = (Inr r, tr') \<Longrightarrow> pass r \<Longrightarrow>
   usedQuality r = baseQ \<and> used r \<in> set vs \<and> variant_encode S p (used r) baseQ = Some (buf r)"
proof (induction vs arbitrary: bf bc tr)
  case Nil
  then show ?case by (auto split: option.splits)
next
  case (Cons v vs)
  from Cons.prems show ?case
    by (subst (asm) variants_loop_Cons)
       (auto split: option.splits if_splits prod.splits sum.splits dest: Cons.IH)
qed

lemma variants_loop_error:
  "variants_loop S p a t baseQ minQ vs bf bc tr = (Inl e, tr') \<Longrightarrow>
   vs \<noteq> [] \<or> bc \<noteq> None \<Longrightarrow> e = EncodeFailure"
proof (induction vs arbitrary: bf bc tr)
  case Nil
  then show ?case by (auto split: option.splits)
next
  case (Cons v vs)
  have rec: "e = EncodeFailure"
    if "variants_loop S p a t baseQ minQ vs bf' (track_bestClarity bc b baseQ v) tr2 = (Inl e, tr')"
    for bf' b tr2
    using Cons.IH [OF that] track_bestClarity_Some by blast
  from Cons.prems(1) show ?case
    by (subst (asm) variants_loop_Cons)
       (auto split: option.splits if_splits prod.splits sum.splits
          dest: search_loop_error rec)
qed

lemma variants_loop_invariant:
  assumes Q: "Q baseQ" "Q minQ" and mid: "\<And>x y. Q x \<Longrightarrow> Q y \<Longrightarrow> Q (midpoint x y)"
    and P: "\<And>v q. v \<in> set vs \<Longrightarrow> Q q \<Longrightarrow> P (variant_call S p v q)"
    and tr: "list_all P tr"
  shows "list_all P (snd (variants_loop S p a t baseQ minQ vs bf bc tr))"
  using P tr
proof (induction vs arbitrary: bf bc tr)
  case Nil
  then show ?case by (simp split: option.splits)
next
  case (Cons v vs)
  let ?tr2 = "tr @ [variant_call S p v baseQ, variant_call S p v minQ]"
  have Pv: "P (variant_call S p v q)" if "Q q" for q
    using Cons.prems(1) that by simp
  have tr2: "list_all P ?tr2"
    using Cons.prems(2) Pv Q by simp
  have rec: "list_all P (snd (variants_loop S p a t baseQ minQ vs bf' bc' tr'))"
    if "list_all P tr'" for bf' bc' tr'
    using Cons.IH [OF _ that] Cons.prems(1) by simp
  have sl: "list_all P (snd (search_loop S p a t v 0 minQ baseQ m minQ ?tr2))" for m
    by (rule search_loop_invariant [where Q = Q, OF Q(2) Q(1) mid Pv tr2])
  show ?case
  proof (cases "variant_encode S p v baseQ")
    case None
    then show ?thesis using Cons.prems(2) Pv Q by (subst variants_loop_Cons) simp
  next
    case b: (Some atBase)
    show ?thesis
    proof (cases "variant_encode S p v minQ")
      case None
      then show ?thesis using b tr2 Cons.prems(2) Pv Q by (subst variants_loop_Cons) simp
    next
      case m: (Some atMin)
      obtain r tr3 where s3: "search_loop S p a t v 0 minQ baseQ atMin minQ ?tr2 = (r, tr3)"
        by (cases "search_loop S p a t v 0 minQ baseQ atMin minQ ?tr2") auto
      have tr3: "list_all P tr3" using sl [of atMin] s3 by simp
      show ?thesis
        using b m s3 tr3 rec [OF tr3] rec [OF tr2] Cons.prems(2) Pv Q
        by (subst variants_loop_Cons) (auto split: sum.splits)
    qed
  qed
qed

text \<open>
  When the interval from \<open>minQ\<close> to \<open>baseQ\<close> is not wider than the threshold, no search
  makes a probe: every encode is at \<open>baseQ\<close> or at \<open>minQ\<close>.
\<close>

lemma variants_loop_no_probe:
  assumes narrow: "\<not> js_gt (js_sub baseQ minQ) (Fin (3 / 200))"
    and tr: "list_all (\<lambda>c. call_quality c = baseQ \<or> call_quality c = minQ) tr"
  shows "list_all (\<lambda>c. call_quality c = baseQ \<or> call_quality c = minQ)
           (snd (variants_loop S p a t baseQ minQ vs bf bc tr))"
  using tr
proof (induction vs arbitrary: bf bc tr)
  case Nil
  then show ?case by (simp split: option.splits)
next
  case (Cons v vs)
  let ?tr2 = "tr @ [variant_call S p v baseQ, variant_call S p v minQ]"
  have tr2: "list_all (\<lambda>c. call_quality c = baseQ \<or> call_quality c = minQ) ?tr2"
    using Cons.prems by (simp add: variant_call_def)
  have s3: "search_loop S p a t v 0 minQ baseQ m minQ ?tr2 = (Inr (m, minQ), ?tr2)" for m
    using narrow by (simp add: search_loop_stop)
  show ?case
    using Cons.prems Cons.IH [OF tr2] s3
    by (subst variants_loop_Cons) (auto simp: variant_call_def split: option.splits)
qed

text \<open>
  When every variant misses the target at \<open>baseQ\<close> and at \<open>minQ\<close>, the loop runs to its
  end and returns what \<open>bestClarity\<close> holds: from the variants, a smallest encode at
  \<open>baseQ\<close>.
\<close>

lemma variants_loop_infeasible:
  assumes inf: "\<forall>v\<in>set vs. \<exists>b m. variant_encode S p v baseQ = Some b \<and> t < length b \<and>
                   variant_encode S p v minQ = Some m \<and> t < length m"
    and ne: "vs \<noteq> [] \<or> bc \<noteq> None"
    and bcq: "\<forall>b q u. bc = Some (b, q, u) \<longrightarrow> q = baseQ"
  shows "\<exists>r tr'. variants_loop S p a t baseQ minQ vs bf bc tr = (Inr r, tr') \<and>
           \<not> pass r \<and> usedQuality r = baseQ \<and>
           (bc = Some (buf r, baseQ, used r) \<or>
            (used r \<in> set vs \<and> variant_encode S p (used r) baseQ = Some (buf r))) \<and>
           (\<forall>b q u. bc = Some (b, q, u) \<longrightarrow> length (buf r) \<le> length b) \<and>
           (\<forall>v\<in>set vs. \<forall>b. variant_encode S p v baseQ = Some b \<longrightarrow> length (buf r) \<le> length b)"
  using inf ne bcq
proof (induction vs arbitrary: bf bc tr)
  case Nil
  then show ?case by (cases bc) auto
next
  case (Cons v vs)
  from Cons.prems(1) obtain b m where
    b: "variant_encode S p v baseQ = Some b" "t < length b" and
    m: "variant_encode S p v minQ = Some m" "t < length m"
    by auto
  let ?bc = "track_bestClarity bc b baseQ v"
  let ?tr2 = "tr @ [variant_call S p v baseQ, variant_call S p v minQ]"
  have step: "variants_loop S p a t baseQ minQ (v # vs) bf bc tr =
              variants_loop S p a t baseQ minQ vs bf ?bc ?tr2"
    using b m by (subst variants_loop_Cons) simp
  have inf': "\<forall>v\<in>set vs. \<exists>b m. variant_encode S p v baseQ = Some b \<and> t < length b \<and>
                   variant_encode S p v minQ = Some m \<and> t < length m"
    using Cons.prems(1) by simp
  have ne': "vs \<noteq> [] \<or> ?bc \<noteq> None"
    by (auto simp: track_bestClarity_def split: option.splits)
  have bcq': "\<forall>b' q u. ?bc = Some (b', q, u) \<longrightarrow> q = baseQ"
    using Cons.prems(3) by (auto simp: track_bestClarity_def split: option.splits if_splits)
  from Cons.IH [OF inf' ne' bcq', of bf ?tr2] obtain r tr' where
    r: "variants_loop S p a t baseQ minQ vs bf ?bc ?tr2 = (Inr r, tr')"
       "\<not> pass r" "usedQuality r = baseQ"
       "?bc = Some (buf r, baseQ, used r) \<or>
          (used r \<in> set vs \<and> variant_encode S p (used r) baseQ = Some (buf r))"
       "\<forall>b' q u. ?bc = Some (b', q, u) \<longrightarrow> length (buf r) \<le> length b'"
       "\<forall>v\<in>set vs. \<forall>b. variant_encode S p v baseQ = Some b \<longrightarrow> length (buf r) \<le> length b"
    by blast
  have le_b: "length (buf r) \<le> length b"
    using r(5) Cons.prems(3) by (auto simp: track_bestClarity_def split: option.splits if_splits)
  have le_bc: "\<forall>b' q u. bc = Some (b', q, u) \<longrightarrow> length (buf r) \<le> length b'"
    using r(5) by (auto simp: track_bestClarity_def split: option.splits if_splits)
  have mem: "bc = Some (buf r, baseQ, used r) \<or>
            (used r \<in> set (v # vs) \<and> variant_encode S p (used r) baseQ = Some (buf r))"
    using r(4) b Cons.prems(3)
    by (auto simp: track_bestClarity_def split: option.splits if_splits)
  show ?case
    using step r(1,2,3) mem le_b le_bc r(6) b by auto
qed

section \<open>Facts about \<open>compressWithTarget\<close>\<close>

lemma compressWithTarget_target:
  "maxSizeBytes a = Some t \<Longrightarrow> 0 < t \<Longrightarrow>
   compressWithTarget S p a tr =
     (case clamp01 (quality a) of
        Inl e \<Rightarrow> (Inl e, tr)
      | Inr baseQ \<Rightarrow>
          (case clamp01 (minQuality a) of
             Inl e \<Rightarrow> (Inl e, tr)
           | Inr minQ \<Rightarrow> variants_loop S p a t baseQ minQ variants None None tr))"
  by (simp add: compressWithTarget_def Let_def)

lemma compressWithTarget_unset:
  "maxSizeBytes a = None \<or> maxSizeBytes a = Some 0 \<Longrightarrow>
   compressWithTarget S p a tr =
     (case S p (\<not> stripMetadata a) (jpegOpts a (quality a)) of
        None \<Rightarrow> Inl EncodeFailure
      | Some b \<Rightarrow>
          Inr \<lparr> usedQuality = quality a, pass = True, buf = b,
                 used = \<lparr> subsample = subsample a, progressive = progressive a,
                          stripMetadata = stripMetadata a \<rparr> \<rparr>,
      tr @ [\<lparr> call_path = p, call_quality = quality a,
               call_withMetadata = (\<not> stripMetadata a),
               call_opts = jpegOpts a (quality a),
               call_out = S p (\<not> stripMetadata a) (jpegOpts a (quality a)) \<rparr>])"
  by (auto simp: compressWithTarget_def encodeAtQuality_def jpegOpts_def Let_def
      split: option.splits)

lemma compressWithTarget_zero:
  "maxSizeBytes a = Some 0 \<Longrightarrow>
   compressWithTarget S p a tr = compressWithTarget S p (a\<lparr>maxSizeBytes := None\<rparr>) tr"
  by (simp add: compressWithTarget_unset jpegOpts_def split: option.splits)

lemma compressWithTarget_count:
  "length (snd (compressWithTarget S p a tr)) \<le> length tr + 4 * 12"
proof -
  have "length (snd (variants_loop S p a t baseQ minQ variants None None tr)) \<le> length tr + 4 * 12"
    for t baseQ minQ
    using variants_loop_count [of S p a t baseQ minQ variants None None tr]
    by (simp add: variants_def)
  then show ?thesis
    by (auto simp: compressWithTarget_def encodeAtQuality_def Let_def
        split: option.splits sum.splits)
qed

lemma compressWithTarget_pass_fits:
  "maxSizeBytes a = Some t \<Longrightarrow> 0 < t \<Longrightarrow> compressWithTarget S p a tr = (Inr r, tr') \<Longrightarrow>
   pass r \<Longrightarrow> length (buf r) \<le> t"
  by (auto simp: compressWithTarget_target split: sum.splits dest: variants_loop_pass_fits)

lemma compressWithTarget_valid_calls:
  assumes "valid_fidelity (quality a)" "valid_fidelity (minQuality a)"
  shows "list_all (\<lambda>c. valid_fidelity (call_quality c) \<and>
                       valid_jpeg_quality (jpeg_quality (call_opts c)))
           (snd (compressWithTarget S p a []))"
proof (cases "maxSizeBytes a = None \<or> maxSizeBytes a = Some 0")
  case True
  show ?thesis
    using assms by (simp add: compressWithTarget_unset [OF True] jpegOpts_def round_fidelity_valid)
next
  case False
  then obtain t where t: "maxSizeBytes a = Some t" "0 < t" by auto
  have run: "compressWithTarget S p a [] =
      variants_loop S p a t (quality a) (minQuality a) variants None None []"
    using t assms by (simp add: compressWithTarget_target clamp01_fixed)
  show ?thesis
    unfolding run
    by (rule variants_loop_invariant [where Q = valid_fidelity])
       (simp_all add: assms midpoint_valid variant_call_valid)
qed

lemma compressWithTarget_strips:
  assumes "maxSizeBytes a = Some t" "0 < t"
  shows "list_all (\<lambda>c. \<not> call_withMetadata c) (snd (compressWithTarget S p a []))"
proof -
  have P: "\<not> call_withMetadata (variant_call S p v q)" if "v \<in> set variants" for v q
    using that variants_strip by (auto simp: variant_call_def list_all_iff)
  have loop: "list_all (\<lambda>c. \<not> call_withMetadata c)
                (snd (variants_loop S p a t baseQ minQ variants None None []))" for baseQ minQ
    by (rule variants_loop_invariant [where Q = "\<lambda>q. True"]) (simp_all add: P)
  show ?thesis
    using loop by (simp add: compressWithTarget_target [OF assms] split: sum.splits)
qed

lemma compressWithTarget_stripMetadata_irrelevant:
  assumes "maxSizeBytes a = Some t" "0 < t"
  shows "compressWithTarget S p (a\<lparr>stripMetadata := x\<rparr>) tr =
         compressWithTarget S p (a\<lparr>stripMetadata := y\<rparr>) tr"
proof -
  have "compressWithTarget S p (a\<lparr>stripMetadata := z\<rparr>) tr =
        (case clamp01 (quality a) of
           Inl e \<Rightarrow> (Inl e, tr)
         | Inr baseQ \<Rightarrow>
             (case clamp01 (minQuality a) of
                Inl e \<Rightarrow> (Inl e, tr)
              | Inr minQ \<Rightarrow> variants_loop S p a t baseQ minQ variants None None tr))" for z
    using assms
    by (simp add: compressWithTarget_target
        variants_loop_args_irrelevant [of S p "a\<lparr>stripMetadata := z\<rparr>" _ _ _ _ _ _ _ a]
        split: sum.splits)
  then show ?thesis by simp
qed

section \<open>Facts about the search of the browser tool\<close>

lemma canvasToJpegBlob_eq:
  "canvasToJpegBlob T q tr =
     (case T q of None \<Rightarrow> Inl ExportFailure | Some b \<Rightarrow> Inr b,
      tr @ [\<lparr> blob_quality = q, blob_out = T q \<rparr>])"
  by (simp add: canvasToJpegBlob_def Let_def split: option.splits)

lemma fit_loop_unfold:
  "fit_loop T t i lo hi bestBlob bestQ n tr =
     (if i < 10 \<and> js_gt (js_sub hi lo) (Fin (1 / 50)) then
        (case T (midpoint lo hi) of
           None \<Rightarrow> (Inl ExportFailure, tr @ [\<lparr> blob_quality = midpoint lo hi, blob_out = None \<rparr>])
         | Some b \<Rightarrow>
             if length b \<le> t
             then fit_loop T t (Suc i) (midpoint lo hi) hi b (midpoint lo hi) (Suc n)
                    (tr @ [\<lparr> blob_quality = midpoint lo hi, blob_out = Some b \<rparr>])
             else fit_loop T t (Suc i) lo (midpoint lo hi) bestBlob bestQ (Suc n)
                    (tr @ [\<lparr> blob_quality = midpoint lo hi, blob_out = Some b \<rparr>]))
      else (Inr (bestBlob, bestQ, n), tr))"
  by (subst fit_loop.simps)
     (simp add: Let_def canvasToJpegBlob_eq midpoint_def split: option.splits)

lemma fit_loop_count:
  "length (snd (fit_loop T t i lo hi bestBlob bestQ n tr)) \<le> length tr + (10 - i)"
proof (induction "10 - i" arbitrary: i lo hi bestBlob bestQ n tr)
  case 0
  then show ?case by (simp add: fit_loop_stop)
next
  case (Suc k)
  then have k: "k = 10 - Suc i" by simp
  have i: "i < 10" using Suc.hyps(2) by simp
  have "length (snd (fit_loop T t (Suc i) lo' hi' b' q' n' (tr @ [c]))) \<le> length tr + 10 - i"
    for lo' hi' b' q' n' c
    using Suc.hyps(1)[OF k, of lo' hi' b' q' n' "tr @ [c]"] i by simp
  moreover have "Suc (length tr) \<le> length tr + 10 - i" "length tr \<le> length tr + 10 - i"
    using i by arith+
  ultimately show ?case
    using i by (subst fit_loop_unfold) (simp split: option.splits)
qed

lemma fit_loop_invariant:
  assumes Q: "Q lo" "Q hi" and mid: "\<And>x y. Q x \<Longrightarrow> Q y \<Longrightarrow> Q (midpoint x y)"
    and P: "\<And>q. Q q \<Longrightarrow> P \<lparr> blob_quality = q, blob_out = T q \<rparr>"
    and tr: "list_all P tr"
  shows "list_all P (snd (fit_loop T t i lo hi bestBlob bestQ n tr))"
  using Q tr
proof (induction "10 - i" arbitrary: i lo hi bestBlob bestQ n tr)
  case 0
  then show ?case by (simp add: fit_loop_stop)
next
  case (Suc k)
  then have k: "k = 10 - Suc i" by simp
  have m: "Q (midpoint lo hi)" using mid Suc.prems by simp
  have tr': "list_all P (tr @ [\<lparr> blob_quality = midpoint lo hi, blob_out = T (midpoint lo hi) \<rparr>])"
    using Suc.prems P[OF m] by simp
  show ?case
    using Suc.hyps(1)[OF k m Suc.prems(2) tr'] Suc.hyps(1)[OF k Suc.prems(1) m tr'] Suc.prems tr'
    by (subst fit_loop_unfold) (auto split: option.splits)
qed

lemma fit_loop_valid:
  "valid_fidelity lo \<Longrightarrow> valid_fidelity hi \<Longrightarrow>
   list_all (\<lambda>c. valid_fidelity (blob_quality c)) tr \<Longrightarrow>
   list_all (\<lambda>c. valid_fidelity (blob_quality c)) (snd (fit_loop T t i lo hi bb bq n tr))"
  by (rule fit_loop_invariant [where Q = valid_fidelity]) (simp_all add: midpoint_valid)

lemma fit_loop_fits:
  "fit_loop T t i lo hi bestBlob bestQ n tr = (Inr (b, q, n'), tr') \<Longrightarrow>
   length bestBlob \<le> t \<Longrightarrow> length b \<le> t"
proof (induction "10 - i" arbitrary: i lo hi bestBlob bestQ n tr)
  case 0
  then show ?case by (simp add: fit_loop_stop)
next
  case (Suc k)
  then have k: "k = 10 - Suc i" by simp
  from Suc.prems show ?case
    by (subst (asm) fit_loop_unfold)
       (auto split: if_splits option.splits dest: Suc.hyps(1)[OF k])
qed

lemma fit_loop_tried:
  "fit_loop T t i lo hi bestBlob bestQ n tr = (Inr (b, q, n'), tr') \<Longrightarrow>
   n' + length tr = n + length tr'"
proof (induction "10 - i" arbitrary: i lo hi bestBlob bestQ n tr)
  case 0
  then show ?case by (simp add: fit_loop_stop)
next
  case (Suc k)
  then have k: "k = 10 - Suc i" by simp
  from Suc.prems show ?case
    by (subst (asm) fit_loop_unfold)
       (auto split: if_splits option.splits dest!: Suc.hyps(1)[OF k])
qed

lemma fit_loop_mono:
  "length tr \<le> length (snd (fit_loop T t i lo hi bestBlob bestQ n tr))"
proof (induction "10 - i" arbitrary: i lo hi bestBlob bestQ n tr)
  case 0
  then show ?case by (simp add: fit_loop_stop)
next
  case (Suc k)
  then have k: "k = 10 - Suc i" by simp
  have "length tr \<le> length (snd (fit_loop T t (Suc i) lo' hi' b' q' n' (tr @ [c])))"
    for lo' hi' b' q' n' c
    using Suc.hyps(1)[OF k, of "tr @ [c]" lo' hi' b' q' n'] by simp
  then show ?case
    by (subst fit_loop_unfold) (simp split: option.splits)
qed

lemma fit_loop_probes:
  assumes "i < 10" "js_gt (js_sub hi lo) (Fin (1 / 50))"
  shows "length tr < length (snd (fit_loop T t i lo hi bestBlob bestQ n tr))"
proof -
  have "length (tr @ [c]) \<le> length (snd (fit_loop T t (Suc i) lo' hi' b' q' n' (tr @ [c])))"
    for lo' hi' b' q' n' c
    by (rule fit_loop_mono)
  then have "length tr < length (snd (fit_loop T t (Suc i) lo' hi' b' q' n' (tr @ [c])))"
    for lo' hi' b' q' n' c
    by (metis length_append_singleton less_eq_Suc_le)
  then show ?thesis
    using assms by (subst fit_loop_unfold) (simp split: option.splits)
qed

lemma encodeCanvasFitUnder_unset:
  "encodeCanvasFitUnder T None optBase optMin tr =
     (case T (clamp (case optBase of None \<Rightarrow> Fin (17 / 20) | Some q \<Rightarrow> q) (Fin (1 / 10)) (Fin 1)) of
        None \<Rightarrow> Inl ExportFailure
      | Some b \<Rightarrow>
          Inr \<lparr> usedQuality = clamp (case optBase of None \<Rightarrow> Fin (17 / 20) | Some q \<Rightarrow> q) (Fin (1 / 10)) (Fin 1),
                 pass = True, blob = b, tried = 1 \<rparr>,
      tr @ [\<lparr> blob_quality = clamp (case optBase of None \<Rightarrow> Fin (17 / 20) | Some q \<Rightarrow> q) (Fin (1 / 10)) (Fin 1),
               blob_out = T (clamp (case optBase of None \<Rightarrow> Fin (17 / 20) | Some q \<Rightarrow> q) (Fin (1 / 10)) (Fin 1)) \<rparr>])"
  by (simp add: encodeCanvasFitUnder_def canvasToJpegBlob_eq Let_def split: option.splits)

lemma encodeCanvasFitUnder_target:
  assumes "0 < t"
    and "bq = clamp (case optBase of None \<Rightarrow> Fin (17 / 20) | Some q \<Rightarrow> q) (Fin (1 / 10)) (Fin 1)"
    and "mq = clamp (case optMin of None \<Rightarrow> Fin (11 / 20) | Some q \<Rightarrow> q) (Fin (1 / 10)) (Fin 1)"
  shows "encodeCanvasFitUnder T (Some t) optBase optMin tr =
     (case T bq of
        None \<Rightarrow> (Inl ExportFailure, tr @ [\<lparr>blob_quality = bq, blob_out = None\<rparr>])
      | Some b \<Rightarrow>
          if length b \<le> t
          then (Inr \<lparr> usedQuality = bq, pass = True, blob = b, tried = 1 \<rparr>,
                tr @ [\<lparr>blob_quality = bq, blob_out = Some b\<rparr>])
          else
            (case T mq of
               None \<Rightarrow> (Inl ExportFailure,
                         tr @ [\<lparr>blob_quality = bq, blob_out = Some b\<rparr>,
                               \<lparr>blob_quality = mq, blob_out = None\<rparr>])
             | Some m \<Rightarrow>
                 if t < length m
                 then (Inr \<lparr> usedQuality = mq, pass = False, blob = m, tried = 2 \<rparr>,
                       tr @ [\<lparr>blob_quality = bq, blob_out = Some b\<rparr>,
                             \<lparr>blob_quality = mq, blob_out = Some m\<rparr>])
                 else
                   (case fit_loop T t 0 mq bq m mq 2
                           (tr @ [\<lparr>blob_quality = bq, blob_out = Some b\<rparr>,
                                  \<lparr>blob_quality = mq, blob_out = Some m\<rparr>]) of
                      (Inl e, tr3) \<Rightarrow> (Inl e, tr3)
                    | (Inr (best, bestQ, n), tr3) \<Rightarrow>
                        (Inr \<lparr> usedQuality = bestQ, pass = True, blob = best, tried = n \<rparr>, tr3))))"
  using assms
  by (simp add: encodeCanvasFitUnder_def canvasToJpegBlob_eq Let_def split: option.splits)

lemma encodeCanvasFitUnder_pass_fits:
  "0 < t \<Longrightarrow> encodeCanvasFitUnder T (Some t) optBase optMin tr = (Inr w, tr') \<Longrightarrow>
   pass w \<Longrightarrow> length (blob w) \<le> t"
  by (auto simp: encodeCanvasFitUnder_def canvasToJpegBlob_eq Let_def
      split: option.splits if_splits prod.splits sum.splits dest: fit_loop_fits)

text \<open>
  In the browser a result with \<open>pass = false\<close> comes from one place only: the encodes at
  the base and at the least fidelity were the only ones, and both exceeded the target.
\<close>

lemma encodeCanvasFitUnder_fail_no_fit:
  assumes "encodeCanvasFitUnder T targetBytes optBase optMin [] = (Inr w, tr)" "\<not> pass w"
  shows "\<exists>t. targetBytes = Some t \<and> 0 < t \<and>
           list_all (\<lambda>c. \<exists>b. blob_out c = Some b \<and> t < length b) tr"
proof (cases "targetBytes = None \<or> targetBytes = Some 0")
  case True
  then show ?thesis
    using assms by (auto simp: encodeCanvasFitUnder_def canvasToJpegBlob_eq Let_def split: option.splits)
next
  case False
  then obtain t where t: "targetBytes = Some t" "0 < t" by auto
  show ?thesis
    using assms unfolding t(1) encodeCanvasFitUnder_target [OF t(2) refl refl]
    by (auto simp: t split: option.splits if_splits prod.splits sum.splits)
qed

lemma encodeCanvasFitUnder_valid_calls_clamped:
  assumes b: "valid_fidelity (clamp (case optBase of None \<Rightarrow> Fin (17 / 20) | Some q \<Rightarrow> q) (Fin (1 / 10)) (Fin 1))"
    and m: "valid_fidelity (clamp (case optMin of None \<Rightarrow> Fin (11 / 20) | Some q \<Rightarrow> q) (Fin (1 / 10)) (Fin 1))"
  shows "list_all (\<lambda>c. valid_fidelity (blob_quality c))
           (snd (encodeCanvasFitUnder T targetBytes optBase optMin []))"
proof (cases "targetBytes = None \<or> targetBytes = Some 0")
  case True
  then show ?thesis
    using b by (auto simp: encodeCanvasFitUnder_def canvasToJpegBlob_eq Let_def split: option.splits)
next
  case False
  then obtain t where t: "targetBytes = Some t" "0 < t" by auto
  define bq where "bq = clamp (case optBase of None \<Rightarrow> Fin (17 / 20) | Some q \<Rightarrow> q) (Fin (1 / 10)) (Fin 1)"
  define mq where "mq = clamp (case optMin of None \<Rightarrow> Fin (11 / 20) | Some q \<Rightarrow> q) (Fin (1 / 10)) (Fin 1)"
  have v: "valid_fidelity bq" "valid_fidelity mq"
    using b m by (simp_all add: bq_def mq_def)
  have "list_all (\<lambda>c. valid_fidelity (blob_quality c))
      (snd (fit_loop T t 0 mq bq bb mq 2
              [\<lparr>blob_quality = bq, blob_out = x\<rparr>, \<lparr>blob_quality = mq, blob_out = y\<rparr>]))"
    for bb x y
    by (rule fit_loop_valid) (simp_all add: v)
  then have loop: "list_all (\<lambda>c. valid_fidelity (blob_quality c)) tr3"
    if "fit_loop T t 0 mq bq bb mq 2
          [\<lparr>blob_quality = bq, blob_out = x\<rparr>, \<lparr>blob_quality = mq, blob_out = y\<rparr>] = (r, tr3)"
    for bb x y r tr3
    using that by (metis snd_conv)
  show ?thesis
    unfolding t(1) encodeCanvasFitUnder_target [OF t(2) bq_def mq_def]
    using v
    by (auto split: option.splits prod.splits sum.splits dest: loop)
qed

lemma encodeCanvasFitUnder_valid_calls:
  fixes optBase optMin :: "rat option"
  shows "list_all (\<lambda>c. valid_fidelity (blob_quality c))
           (snd (encodeCanvasFitUnder T targetBytes (map_option Fin optBase) (map_option Fin optMin) []))"
  by (rule encodeCanvasFitUnder_valid_calls_clamped)
     (cases optBase; cases optMin; simp add: clamp_def)+

section \<open>Facts about the command line\<close>

lemma digits_value_Nil: "digits_value [] = 0"
  by (simp add: digits_value_def)

lemma digits_value_snoc: "digits_value (ds @ [c]) = 10 * digits_value ds + digit_val c"
  by (simp add: digits_value_def)

lemma all_digits_takeWhile:
  "all_digits ip \<Longrightarrow> takeWhile is_digit (ip @ CHR ''.'' # fp) = ip"
  by (simp add: all_digits_def list_all_iff is_digit_def takeWhile_append2)

lemma all_digits_dropWhile:
  "all_digits ip \<Longrightarrow> dropWhile is_digit (ip @ CHR ''.'' # fp) = CHR ''.'' # fp"
  by (simp add: all_digits_def list_all_iff is_digit_def dropWhile_append2)

lemma all_digits_takeWhile_id: "all_digits ip \<Longrightarrow> takeWhile is_digit ip = ip"
  by (simp add: all_digits_def list_all_iff)

lemma all_digits_dropWhile_Nil: "all_digits ip \<Longrightarrow> dropWhile is_digit ip = []"
  by (simp add: all_digits_def list_all_iff)

lemma is_decimal_int: "all_digits ip \<Longrightarrow> is_decimal ip"
  by (simp add: is_decimal_def all_digits_takeWhile_id all_digits_dropWhile_Nil)
     (simp add: all_digits_def)

lemma is_decimal_frac: "all_digits ip \<Longrightarrow> all_digits fp \<Longrightarrow> is_decimal (ip @ CHR ''.'' # fp)"
  by (simp add: is_decimal_def all_digits_takeWhile all_digits_dropWhile)
     (simp add: all_digits_def)

lemma decimal_value_int: "all_digits ip \<Longrightarrow> decimal_value ip = of_nat (digits_value ip)"
  by (simp add: decimal_value_def all_digits_takeWhile_id all_digits_dropWhile_Nil)

lemma decimal_value_frac:
  "all_digits ip \<Longrightarrow>
   decimal_value (ip @ CHR ''.'' # fp) =
     of_nat (digits_value ip) + of_nat (digits_value fp) / 10 ^ length fp"
  by (simp add: decimal_value_def all_digits_takeWhile all_digits_dropWhile)

text \<open>
  The exact reading against a rounded one. \<open>digits.digits\<close> is the quotient of the
  digits read without the point by a power of ten. Let \<open>d\<close> be a reading of it with a
  relative error of at most \<open>2\<^sup>-\<^sup>5\<^sup>3\<close>, and exact when the product with the factor \<open>m\<close> is
  an integer, as the nearest double is (such a product is below \<open>2\<^sup>5\<^sup>3\<close>, so the number
  is that integer divided by a power of two, a double). When the digits times \<open>m\<close> are
  below \<open>2\<^sup>5\<^sup>3\<close>, the floor of \<open>d \<times> m\<close> is the floor of the exact product: a product that
  is not an integer is at least \<open>10\<^sup>-\<^sup>L\<close> away from every integer, \<open>L\<close> the number of
  digits after the point, and the error is less than that.
\<close>

lemma digits_value_append:
  "digits_value (xs @ ys) = digits_value xs * 10 ^ length ys + digits_value ys"
proof (induction ys rule: rev_induct)
  case Nil
  show ?case by (simp add: digits_value_Nil)
next
  case (snoc y ys)
  have "digits_value (xs @ ys @ [y]) = 10 * digits_value (xs @ ys) + digit_val y"
    using digits_value_snoc [of "xs @ ys" y] by simp
  then show ?case
    using snoc digits_value_snoc [of ys y] by (simp add: algebra_simps)
qed

lemma decimal_value_quotient:
  assumes "all_digits ip"
  shows "decimal_value (ip @ CHR ''.'' # fp) = of_nat (digits_value (ip @ fp)) / 10 ^ length fp"
  using decimal_value_frac [OF assms, of fp]
  by (simp add: digits_value_append field_simps)

lemma floor_near_quotient:
  fixes x :: rat and A D :: int
  assumes D: "0 < D"
    and nonint: "of_int \<lfloor>of_int A / of_int D :: rat\<rfloor> \<noteq> (of_int A / of_int D :: rat)"
    and near: "\<bar>x - of_int A / of_int D\<bar> < 1 / of_int D"
  shows "\<lfloor>x\<rfloor> = \<lfloor>of_int A / of_int D :: rat\<rfloor>"
proof -
  define v :: rat where "v = of_int A / of_int D"
  define q where "q = \<lfloor>v\<rfloor>"
  have Dr: "(0 :: rat) < of_int D" using D by simp
  have vD: "v * of_int D = of_int A"
    using Dr by (simp add: v_def)
  have "of_int q \<le> v" by (simp add: q_def)
  moreover have "of_int q \<noteq> v" using nonint unfolding v_def q_def .
  ultimately have "of_int q < v" by (metis less_le)
  then have "of_int q * of_int D < v * (of_int D :: rat)"
    using Dr by (simp add: mult_strict_right_mono)
  then have "(of_int (q * D) :: rat) < of_int A"
    by (simp add: vD)
  then have "q * D < A" by (simp only: of_int_less_iff)
  then have "q * D + 1 \<le> A" by simp
  then have "(of_int (q * D + 1) :: rat) \<le> of_int A" by (simp only: of_int_le_iff)
  then have "of_int q * of_int D + 1 \<le> v * (of_int D :: rat)"
    by (simp add: vD)
  then have lo: "of_int q + 1 / of_int D \<le> v"
    using Dr by (simp add: field_simps)
  have "v < of_int q + 1" unfolding q_def by linarith
  then have "v * of_int D < (of_int q + 1) * (of_int D :: rat)"
    using Dr by (simp add: mult_strict_right_mono)
  then have "(of_int A :: rat) < of_int ((q + 1) * D)"
    by (simp add: vD)
  then have "A < (q + 1) * D" by (simp only: of_int_less_iff)
  then have "A + 1 \<le> (q + 1) * D" by simp
  then have "(of_int (A + 1) :: rat) \<le> of_int ((q + 1) * D)" by (simp only: of_int_le_iff)
  then have "v * of_int D + 1 \<le> (of_int q + 1) * (of_int D :: rat)"
    by (simp add: vD)
  then have hi: "v + 1 / of_int D \<le> of_int q + 1"
    using Dr by (simp add: field_simps)
  from near have "v - 1 / of_int D < x" "x < v + 1 / of_int D"
    by (simp_all add: v_def abs_less_iff)
  with lo hi have "of_int q \<le> x" "x < of_int q + 1" by simp_all
  then have "\<lfloor>x\<rfloor> = q" by (simp add: floor_unique)
  then show ?thesis by (simp add: q_def v_def)
qed

lemma floor_rounded_reading:
  fixes d :: rat
  assumes ip: "all_digits ip"
    and bound: "digits_value (ip @ fp) * m < 2 ^ 53"
    and m: "0 < m"
    and near: "\<bar>d - decimal_value (ip @ ''.'' @ fp)\<bar> * 2 ^ 53 \<le> decimal_value (ip @ ''.'' @ fp)"
    and exact: "of_int \<lfloor>decimal_value (ip @ ''.'' @ fp) * of_nat m\<rfloor>
                  = decimal_value (ip @ ''.'' @ fp) * of_nat m \<Longrightarrow> d = decimal_value (ip @ ''.'' @ fp)"
  shows "\<lfloor>d * of_nat m\<rfloor> = \<lfloor>decimal_value (ip @ ''.'' @ fp) * of_nat m\<rfloor>"
proof (cases "of_int \<lfloor>decimal_value (ip @ ''.'' @ fp) * of_nat m\<rfloor>
                  = decimal_value (ip @ ''.'' @ fp) * of_nat m")
  case True
  then show ?thesis using exact by simp
next
  case False
  define M where "M = digits_value (ip @ fp)"
  define D :: int where "D = 10 ^ length fp"
  define dec where "dec = decimal_value (ip @ ''.'' @ fp)"
  have D: "0 < D" by (simp add: D_def)
  have dec: "dec = of_nat M / of_int D"
    by (simp add: dec_def M_def D_def decimal_value_quotient [OF ip])
  have v: "dec * of_nat m = of_int (int (M * m)) / of_int D"
    by (simp add: dec)
  have dec0: "0 \<le> dec" using D by (simp add: dec)
  have "\<bar>d * of_nat m - dec * of_nat m\<bar> = \<bar>d - dec\<bar> * of_nat m"
    by (simp add: abs_mult flip: left_diff_distrib)
  also have "\<dots> * 2 ^ 53 \<le> dec * of_nat m"
    using near m mult_right_mono [of "\<bar>d - dec\<bar> * 2 ^ 53" dec "of_nat m"]
    by (simp add: dec_def algebra_simps)
  finally have e1: "\<bar>d * of_nat m - dec * of_nat m\<bar> * 2 ^ 53 \<le> dec * of_nat m" .
  have "(of_nat (M * m) :: rat) < 2 ^ 53"
    using bound unfolding M_def by (metis of_nat_less_numeral_power_cancel_iff)
  then have "dec * of_nat m * of_int D < 2 ^ 53"
    using D by (simp add: dec)
  then have "dec * of_nat m < 2 ^ 53 * (1 / of_int D)"
    using D by (simp add: field_simps)
  with e1 have "\<bar>d * of_nat m - dec * of_nat m\<bar> * 2 ^ 53 < 2 ^ 53 * (1 / of_int D)"
    by simp
  then have near': "\<bar>d * of_nat m - of_int (int (M * m)) / of_int D\<bar> < 1 / of_int D"
    by (simp add: v)
  from False have "of_int \<lfloor>dec * of_nat m\<rfloor> \<noteq> dec * of_nat m"
    unfolding dec_def .
  then have nonint: "of_int \<lfloor>of_int (int (M * m)) / of_int D :: rat\<rfloor>
      \<noteq> (of_int (int (M * m)) / of_int D :: rat)"
    unfolding v .
  show ?thesis
    unfolding dec_def [symmetric] v by (rule floor_near_quotient [OF D nonint near'])
qed


lemma is_decimal_forms:
  assumes "is_decimal num"
  shows "all_digits num \<or> (\<exists>ip fp. all_digits ip \<and> all_digits fp \<and> num = ip @ CHR ''.'' # fp)"
proof (cases "dropWhile is_digit num")
  case Nil
  then have "list_all is_digit num"
    by (simp add: list_all_iff)
  moreover have "num \<noteq> []"
    using assms by (auto simp: is_decimal_def)
  ultimately show ?thesis by (simp add: all_digits_def)
next
  case (Cons c fp)
  have ip: "all_digits (takeWhile is_digit num)"
    using assms by (auto simp: is_decimal_def all_digits_def list_all_iff dest: set_takeWhileD)
  have c: "c = CHR ''.''" "all_digits fp"
    using assms Cons by (simp_all add: is_decimal_def)
  have "num = takeWhile is_digit num @ CHR ''.'' # fp"
    using takeWhile_dropWhile_id [of is_digit num] Cons c by simp
  then show ?thesis using ip c by blast
qed

lemma not_all_digits_unit:
  "u \<in> {''kb'', ''mb'', ''gb''} \<Longrightarrow> \<not> all_digits (x @ u)"
  by (auto simp: all_digits_def is_digit_def)

lemma match_size_unit:
  assumes "u \<in> {''kb'', ''mb'', ''gb''}"
  shows "match_size (num @ u) = (if is_decimal num then Some (num, u) else None)"
proof -
  have "length u = 2" using assms by auto
  then have "take (length (num @ u) - 2) (num @ u) = num" "drop (length (num @ u) - 2) (num @ u) = u"
    by simp_all
  then show ?thesis
    using assms unfolding match_size_def Let_def by auto
qed

lemma match_size_Some:
  assumes "match_size raw = Some (num, u)"
  shows "raw = num @ u \<and> u \<in> {''kb'', ''mb'', ''gb''} \<and> is_decimal num"
proof -
  from assms have
    parts: "num = take (length raw - 2) raw" "u = drop (length raw - 2) raw" and
    ok: "u \<in> {''kb'', ''mb'', ''gb''}" "is_decimal num"
    by (auto simp: match_size_def Let_def split: if_splits)
  have "raw = num @ u"
    unfolding parts by simp
  then show ?thesis using ok by simp
qed

lemma unit_mult:
  "u \<in> {''kb'', ''mb'', ''gb''} \<Longrightarrow>
   (if u = ''kb'' then 1024 else if u = ''mb'' then 1024 * 1024 else 1024 * 1024 * 1024)
     = (of_nat (unit_factor u) :: rat)"
  by (auto simp: unit_factor_def)

lemma parseSizeToBytes_digits:
  "all_digits (toLowerCase (trim s)) \<Longrightarrow>
   parseSizeToBytes s = Inr (digits_value (toLowerCase (trim s)))"
  by (simp add: parseSizeToBytes_def)

lemma parseSizeToBytes_unit:
  assumes "toLowerCase (trim s) = num @ u" "u \<in> {''kb'', ''mb'', ''gb''}" "is_decimal num"
  shows "parseSizeToBytes s = Inr (nat \<lfloor>decimal_value num * of_nat (unit_factor u)\<rfloor>)"
  using assms not_all_digits_unit [OF assms(2), of num] unit_mult [OF assms(2)]
  by (simp add: parseSizeToBytes_def match_size_unit Let_def)

lemma parseSizeToBytes_int_unit:
  assumes "toLowerCase (trim s) = ip @ u" "all_digits ip" "u \<in> {''kb'', ''mb'', ''gb''}"
  shows "parseSizeToBytes s = Inr (digits_value ip * unit_factor u)"
proof -
  have "nat \<lfloor>(of_nat (digits_value ip) :: rat) * of_nat (unit_factor u)\<rfloor> = digits_value ip * unit_factor u"
    by (metis floor_of_nat nat_int of_nat_mult)
  then show ?thesis
    using parseSizeToBytes_unit [OF assms(1,3) is_decimal_int [OF assms(2)]]
    by (simp add: decimal_value_int [OF assms(2)])
qed

lemma parseSizeToBytes_frac_unit:
  assumes "toLowerCase (trim s) = ip @ ''.'' @ fp @ u" "all_digits ip" "all_digits fp"
    "u \<in> {''kb'', ''mb'', ''gb''}"
  shows "parseSizeToBytes s =
     Inr (nat \<lfloor>(of_nat (digits_value ip) + of_nat (digits_value fp) / 10 ^ length fp :: rat)
                 * of_nat (unit_factor u)\<rfloor>)"
  using parseSizeToBytes_unit [of s "ip @ CHR ''.'' # fp" u] assms
  by (simp add: is_decimal_frac decimal_value_frac)

lemma parseSizeToBytes_forms:
  assumes "parseSizeToBytes s = Inr n"
  shows "\<exists>ip fp u. all_digits ip \<and>
           (toLowerCase (trim s) = ip \<or>
            u \<in> {''kb'', ''mb'', ''gb''} \<and>
              (toLowerCase (trim s) = ip @ u \<or>
               all_digits fp \<and> toLowerCase (trim s) = ip @ ''.'' @ fp @ u))"
proof (cases "all_digits (toLowerCase (trim s))")
  case True
  then show ?thesis by blast
next
  case False
  with assms obtain num u where m: "match_size (toLowerCase (trim s)) = Some (num, u)"
    by (auto simp: parseSizeToBytes_def Let_def split: option.splits)
  from match_size_Some [OF m] have
    raw: "toLowerCase (trim s) = num @ u" and u: "u \<in> {''kb'', ''mb'', ''gb''}" and d: "is_decimal num"
    by simp_all
  from is_decimal_forms [OF d] show ?thesis
  proof
    assume "all_digits num"
    then show ?thesis using raw u by blast
  next
    assume "\<exists>ip fp. all_digits ip \<and> all_digits fp \<and> num = ip @ CHR ''.'' # fp"
    then obtain ip fp where "all_digits ip" "all_digits fp" "num = ip @ CHR ''.'' # fp"
      by blast
    then show ?thesis using raw u by (intro exI [of _ ip] exI [of _ fp] exI [of _ u]) simp
  qed
qed

lemma parseSizeToBytes_error:
  "parseSizeToBytes s = Inl e \<Longrightarrow> e = InvalidMaxSize s"
  by (auto simp: parseSizeToBytes_def Let_def split: if_splits option.splits)

lemma parseArgs_valid:
  "parseArgs N argv = Inr a \<Longrightarrow> valid_fidelity (quality a) \<and> valid_fidelity (minQuality a)"
  by (auto simp: parseArgs_def Let_def split: sum.splits option.splits if_splits
      dest: clamp01_valid)

lemma parseArgs_size:
  assumes "parseArgs N argv = Inr a"
  shows "(maxSizeBytes a = None \<longleftrightarrow>
            fitUnder a = None \<and> maxSize a = None \<or> fitUnder a = Some [] \<or>
            fitUnder a = None \<and> maxSize a = Some [])"
    and "maxSizeBytes a = Some n \<Longrightarrow>
           \<exists>s. s \<noteq> [] \<and> (fitUnder a = Some s \<or> fitUnder a = None \<and> maxSize a = Some s) \<and>
               parseSizeToBytes s = Inr n"
  using assms
  by (auto simp: parseArgs_def Let_def split: sum.splits option.splits if_splits)

section \<open>The scenarios, run\<close>

lemma parseArgs_scenario_A: "parseArgs Number_decimal scenario_A_argv = Inr scenario_A_args"
  by (simp add: scenario_A_argv_def scenario_A_args_def eval_args)

lemma parseArgs_scenario_B: "parseArgs Number_decimal scenario_B_argv = Inr scenario_B_args"
  by (simp add: scenario_B_argv_def scenario_B_args_def eval_args)

lemma parseArgs_scenario_C: "parseArgs Number_decimal scenario_C_argv = Inr scenario_C_args"
  by (simp add: scenario_C_argv_def scenario_C_args_def eval_args)

lemma parseArgs_inverted: "parseArgs Number_decimal inverted_argv = Inr inverted_args"
  by (simp add: inverted_argv_def inverted_args_def eval_args)

lemma parseArgs_wide: "parseArgs Number_decimal wide_argv = Inr wide_args"
  by (simp add: wide_argv_def wide_args_def eval_args)

lemma parseArgs_zero: "parseArgs Number_decimal zero_argv = Inr zero_args"
  by (simp add: zero_argv_def zero_args_def eval_args)

lemma parseArgs_custom: "parseArgs Number_decimal custom_argv = Inr custom_args"
  by (simp add: custom_argv_def custom_args_def eval_args)

lemma parseArgs_roomy: "parseArgs Number_decimal roomy_argv = Inr roomy_args"
  by (simp add: roomy_argv_def roomy_args_def eval_args)

lemma stub_variant_encode:
  "variant_encode stub_sharp p v (Fin q) = Some (replicate (nat \<lfloor>10000 * rat_of_int \<lfloor>q * 100 + 1 / 2\<rfloor>\<rfloor>) 0)"
  by (simp add: variant_encode_def variant_opts_def stub_sharp_def)

lemma scenario_A_cli_result:
  "fst (compressWithTarget stub_sharp ''scan.jpg'' scenario_A_args []) =
     Inr \<lparr> usedQuality = Fin (17 / 20), pass = False, buf = replicate 850000 0,
            used = \<lparr> subsample = ''4:4:4'', progressive = False, stripMetadata = True \<rparr> \<rparr>"
  by (simp add: scenario_A_args_def eval_cli)

lemma scenario_A_cli_qualities:
  "map call_quality (snd (compressWithTarget stub_sharp ''scan.jpg'' scenario_A_args [])) =
     [Fin (17 / 20), Fin (11 / 20), Fin (7 / 10), Fin (5 / 8), Fin (47 / 80), Fin (97 / 160),
      Fin (191 / 320), Fin (17 / 20), Fin (11 / 20), Fin (7 / 10), Fin (5 / 8),
      Fin (47 / 80), Fin (97 / 160), Fin (191 / 320), Fin (17 / 20), Fin (11 / 20),
      Fin (7 / 10), Fin (5 / 8), Fin (47 / 80), Fin (97 / 160), Fin (191 / 320),
      Fin (17 / 20), Fin (11 / 20), Fin (7 / 10), Fin (5 / 8), Fin (47 / 80), Fin (97 / 160),
      Fin (191 / 320)]"
  by (simp add: scenario_A_args_def eval_cli)

lemma scenario_A_cli_sizes:
  "map call_size (snd (compressWithTarget stub_sharp ''scan.jpg'' scenario_A_args [])) =
     [Some 850000, Some 550000, Some 700000, Some 630000, Some 590000, Some 610000,
      Some 600000, Some 850000, Some 550000, Some 700000, Some 630000, Some 590000,
      Some 610000, Some 600000, Some 850000, Some 550000, Some 700000, Some 630000,
      Some 590000, Some 610000, Some 600000, Some 850000, Some 550000, Some 700000,
      Some 630000, Some 590000, Some 610000, Some 600000]"
  by (simp add: scenario_A_args_def eval_cli call_size_def)

lemma scenario_A_first_search:
  "search_loop stub_sharp ''scan.jpg'' scenario_A_args 600000 (variants ! 0) 0
       (Fin (11 / 20)) (Fin (17 / 20)) (replicate 550000 0) (Fin (11 / 20)) [] =
     (Inr (replicate 600000 0, Fin (191 / 320)),
      snd (search_loop stub_sharp ''scan.jpg'' scenario_A_args 600000 (variants ! 0) 0
             (Fin (11 / 20)) (Fin (17 / 20)) (replicate 550000 0) (Fin (11 / 20)) []))"
  by (simp add: scenario_A_args_def eval_cli)

lemma scenario_A_web_run:
  "encodeCanvasFitUnder stub_toBlob (Some 600000) (Some (Fin (17 / 20))) (Some (Fin (11 / 20))) [] =
     (Inr \<lparr> usedQuality = Fin (47 / 80), pass = True, blob = replicate 587500 0, tried = 6 \<rparr>,
      [\<lparr> blob_quality = Fin (17 / 20), blob_out = Some (replicate 850000 0) \<rparr>,
       \<lparr> blob_quality = Fin (11 / 20), blob_out = Some (replicate 550000 0) \<rparr>,
       \<lparr> blob_quality = Fin (7 / 10), blob_out = Some (replicate 700000 0) \<rparr>,
       \<lparr> blob_quality = Fin (5 / 8), blob_out = Some (replicate 625000 0) \<rparr>,
       \<lparr> blob_quality = Fin (47 / 80), blob_out = Some (replicate 587500 0) \<rparr>,
       \<lparr> blob_quality = Fin (97 / 160), blob_out = Some (replicate 606250 0) \<rparr>])"
  by (simp add: eval_web)

lemma scenario_A_web_last_state:
  "fit_loop stub_toBlob 600000 4 (Fin (47 / 80)) (Fin (97 / 160)) (replicate 587500 0)
       (Fin (47 / 80)) 6 [] =
     (Inr (replicate 587500 0, Fin (47 / 80), 6), [])"
  by (simp add: eval_web)

lemma scenario_C_cli_run:
  "compressWithTarget stub_sharp ''scan.jpg'' scenario_C_args [] =
     (Inr \<lparr> usedQuality = Fin (17 / 20), pass = True, buf = replicate 850000 0,
            used = \<lparr> subsample = ''4:4:4'', progressive = False, stripMetadata = True \<rparr> \<rparr>,
      [variant_call stub_sharp ''scan.jpg'' (variants ! 0) (Fin (17 / 20))])"
  by (simp add: scenario_C_args_def eval_cli variant_call_def variant_encode_def variant_opts_def)

lemma custom_cli_run:
  "compressWithTarget stub_sharp ''scan.jpg'' custom_args [] =
     (Inr \<lparr> usedQuality = Fin (17 / 20), pass = True, buf = replicate 850000 0,
            used = \<lparr> subsample = ''4:2:0'', progressive = True, stripMetadata = False \<rparr> \<rparr>,
      [\<lparr> call_path = ''scan.jpg'', call_quality = Fin (17 / 20), call_withMetadata = True,
         call_opts = \<lparr> jpeg_quality = Fin 85, jpeg_progressive = True,
                       chromaSubsampling = ''4:2:0'', mozjpeg = True, optimizeCoding = True \<rparr>,
         call_out = Some (replicate 850000 0) \<rparr>])"
  by (simp add: custom_args_def eval_cli)

lemma roomy_cli_run:
  "compressWithTarget stub_sharp ''scan.jpg'' roomy_args [] =
     (Inr \<lparr> usedQuality = Fin (17 / 20), pass = True, buf = replicate 850000 0,
            used = \<lparr> subsample = ''4:4:4'', progressive = False, stripMetadata = True \<rparr> \<rparr>,
      [variant_call stub_sharp ''scan.jpg'' (variants ! 0) (Fin (17 / 20))])"
  by (simp add: roomy_args_def eval_cli variant_call_def variant_encode_def variant_opts_def)

section \<open>The claims\<close>

text \<open>
  C1. The claim: when a variant misses the target at the base fidelity and its binary
  search finds a fidelity that fits, \<open>compressWithTarget\<close> returns that fit at once with
  \<open>pass = true\<close>; in scenario A the result has \<open>pass = true\<close>, the first variant and a
  fidelity within \<open>0.015\<close> of \<open>0.600\<close>.

  The batch tool run on scenario A: the search of the first variant ends on the fit
  \<open>191/320\<close> (about \<open>0.597\<close>, size \<open>600,000\<close>), which the loop stores in \<open>bestFit\<close> and does not
  return. All four variants are searched, \<open>28\<close> encodes in all, and the result is the
  base-fidelity encode with \<open>pass = false\<close>.
\<close>

theorem C1_scenario_A_fit_not_returned:
  "parseArgs Number_decimal scenario_A_argv = Inr scenario_A_args \<and>
   search_loop stub_sharp ''scan.jpg'' scenario_A_args 600000 (variants ! 0) 0
       (Fin (11 / 20)) (Fin (17 / 20)) (replicate 550000 0) (Fin (11 / 20)) [] =
     (Inr (replicate 600000 0, Fin (191 / 320)),
      snd (search_loop stub_sharp ''scan.jpg'' scenario_A_args 600000 (variants ! 0) 0
             (Fin (11 / 20)) (Fin (17 / 20)) (replicate 550000 0) (Fin (11 / 20)) [])) \<and>
   fst (compressWithTarget stub_sharp ''scan.jpg'' scenario_A_args []) =
     Inr \<lparr> usedQuality = Fin (17 / 20), pass = False, buf = replicate 850000 0,
            used = \<lparr> subsample = ''4:4:4'', progressive = False, stripMetadata = True \<rparr> \<rparr> \<and>
   length (snd (compressWithTarget stub_sharp ''scan.jpg'' scenario_A_args [])) = 28"
proof -
  have "length (snd (compressWithTarget stub_sharp ''scan.jpg'' scenario_A_args [])) = 28"
    using arg_cong [OF scenario_A_cli_sizes, of length] by simp
  then show ?thesis
    using parseArgs_scenario_A scenario_A_cli_result scenario_A_first_search by simp
qed

text \<open>
  C2. The claim: whenever the result has \<open>pass = false\<close>, no encode of the search, at the
  base fidelity, at the least fidelity or at a midpoint, produced a size at most the
  target.

  The batch tool on scenario A returns \<open>pass = false\<close>, and of its encodes the second
  (the first variant at the least fidelity \<open>0.55\<close>) has size \<open>550,000\<close> and the seventh
  (the probe at \<open>191/320\<close>) has size \<open>600,000\<close>, both at most the target \<open>600,000\<close>.
\<close>

theorem C2_scenario_A_fail_with_fitting_attempts:
  "fst (compressWithTarget stub_sharp ''scan.jpg'' scenario_A_args []) =
     Inr \<lparr> usedQuality = Fin (17 / 20), pass = False, buf = replicate 850000 0,
            used = \<lparr> subsample = ''4:4:4'', progressive = False, stripMetadata = True \<rparr> \<rparr> \<and>
   maxSizeBytes scenario_A_args = Some 600000 \<and>
   map call_quality (snd (compressWithTarget stub_sharp ''scan.jpg'' scenario_A_args [])) ! 1
     = Fin (11 / 20) \<and>
   map call_size (snd (compressWithTarget stub_sharp ''scan.jpg'' scenario_A_args [])) ! 1
     = Some 550000 \<and>
   map call_quality (snd (compressWithTarget stub_sharp ''scan.jpg'' scenario_A_args [])) ! 6
     = Fin (191 / 320) \<and>
   map call_size (snd (compressWithTarget stub_sharp ''scan.jpg'' scenario_A_args [])) ! 6
     = Some 600000"
proof -
  have "maxSizeBytes scenario_A_args = Some 600000"
    by (simp add: scenario_A_args_def initial_args_def)
  then show ?thesis
    using scenario_A_cli_result by (simp add: scenario_A_cli_qualities scenario_A_cli_sizes)
qed

text \<open>
  C3. The claim: when every variant misses the target even at the least fidelity, the
  result is the smallest encode made at the base fidelity across the variants, with
  \<open>usedQuality\<close> the base fidelity and \<open>pass = false\<close>; in scenario B (target \<open>100\<close>) the
  returned fidelity is \<open>0.85\<close> and the returned size \<open>850,000\<close>.

  The browser's search \<open>encodeCanvasFitUnder\<close> returns its encode at the least fidelity
  instead: in scenario B the fidelity \<open>0.55\<close> and the size \<open>550,000\<close>.
\<close>

theorem C3_counterexample_browser_scenario_B:
  "encodeCanvasFitUnder stub_toBlob (Some 100) (Some (Fin (17 / 20))) (Some (Fin (11 / 20))) [] =
     (Inr \<lparr> usedQuality = Fin (11 / 20), pass = False, blob = replicate 550000 0, tried = 2 \<rparr>,
      [\<lparr> blob_quality = Fin (17 / 20), blob_out = Some (replicate 850000 0) \<rparr>,
       \<lparr> blob_quality = Fin (11 / 20), blob_out = Some (replicate 550000 0) \<rparr>]) \<and>
   Fin (11 / 20) \<noteq> Fin (17 / 20) \<and>
   length (replicate 550000 (0 :: 8 word)) \<noteq> 850000"
  by (simp add: eval_web)

text \<open>
  C3, as amended. In the batch tool, when every variant's encode at the base fidelity
  and at the least fidelity succeeds and exceeds the target, \<open>compressWithTarget\<close>
  returns, with \<open>pass = false\<close> and \<open>usedQuality\<close> the base fidelity, the base-fidelity
  encode of a variant of the table, and no variant's base-fidelity encode is smaller. In
  the browser, when the encode at the base fidelity and the one at the least fidelity
  both exceed the target, \<open>encodeCanvasFitUnder\<close> returns the encode at the least fidelity,
  with \<open>usedQuality\<close> the least fidelity, \<open>pass = false\<close> and \<open>tried = 2\<close>.
\<close>

theorem C3_fallback:
  "(maxSizeBytes a = Some t \<and> 0 < t \<and>
    clamp01 (quality a) = Inr baseQ \<and> clamp01 (minQuality a) = Inr minQ \<and>
    (\<forall>v\<in>set variants. \<exists>b m.
        variant_encode S p v baseQ = Some b \<and> t < length b \<and>
        variant_encode S p v minQ = Some m \<and> t < length m)
    \<longrightarrow>
    (\<exists>r tr. compressWithTarget S p a [] = (Inr r, tr) \<and>
        \<not> pass r \<and> usedQuality r = baseQ \<and> used r \<in> set variants \<and>
        variant_encode S p (used r) baseQ = Some (buf r) \<and>
        (\<forall>v\<in>set variants. \<forall>b.
            variant_encode S p v baseQ = Some b \<longrightarrow> length (buf r) \<le> length b))) \<and>
   (0 < t' \<and>
    T (clamp (case optBase of None \<Rightarrow> Fin (17 / 20) | Some q \<Rightarrow> q) (Fin (1 / 10)) (Fin 1)) = Some b' \<and>
    t' < length b' \<and>
    T (clamp (case optMin of None \<Rightarrow> Fin (11 / 20) | Some q \<Rightarrow> q) (Fin (1 / 10)) (Fin 1)) = Some m' \<and>
    t' < length m'
    \<longrightarrow>
    fst (encodeCanvasFitUnder T (Some t') optBase optMin []) =
      Inr \<lparr> usedQuality = clamp (case optMin of None \<Rightarrow> Fin (11 / 20) | Some q \<Rightarrow> q) (Fin (1 / 10)) (Fin 1),
             pass = False, blob = m', tried = 2 \<rparr>)"
proof (intro conjI impI)
  assume h: "maxSizeBytes a = Some t \<and> 0 < t \<and>
    clamp01 (quality a) = Inr baseQ \<and> clamp01 (minQuality a) = Inr minQ \<and>
    (\<forall>v\<in>set variants. \<exists>b m.
        variant_encode S p v baseQ = Some b \<and> t < length b \<and>
        variant_encode S p v minQ = Some m \<and> t < length m)"
  then have run: "compressWithTarget S p a [] = variants_loop S p a t baseQ minQ variants None None []"
    by (simp add: compressWithTarget_target)
  from h have inf: "\<forall>v\<in>set variants. \<exists>b m.
        variant_encode S p v baseQ = Some b \<and> t < length b \<and>
        variant_encode S p v minQ = Some m \<and> t < length m"
    by blast
  have ne: "variants \<noteq> [] \<or> (None :: candidate option) \<noteq> None"
    using variants_nonempty by simp
  have bcq: "\<forall>b q u. (None :: candidate option) = Some (b, q, u) \<longrightarrow> q = baseQ"
    by simp
  from variants_loop_infeasible [OF inf ne bcq, of a None "[]"] run
  show "\<exists>r tr. compressWithTarget S p a [] = (Inr r, tr) \<and>
        \<not> pass r \<and> usedQuality r = baseQ \<and> used r \<in> set variants \<and>
        variant_encode S p (used r) baseQ = Some (buf r) \<and>
        (\<forall>v\<in>set variants. \<forall>b.
            variant_encode S p v baseQ = Some b \<longrightarrow> length (buf r) \<le> length b)"
    by auto
next
  assume "0 < t' \<and>
    T (clamp (case optBase of None \<Rightarrow> Fin (17 / 20) | Some q \<Rightarrow> q) (Fin (1 / 10)) (Fin 1)) = Some b' \<and>
    t' < length b' \<and>
    T (clamp (case optMin of None \<Rightarrow> Fin (11 / 20) | Some q \<Rightarrow> q) (Fin (1 / 10)) (Fin 1)) = Some m' \<and>
    t' < length m'"
  then show "fst (encodeCanvasFitUnder T (Some t') optBase optMin []) =
      Inr \<lparr> usedQuality = clamp (case optMin of None \<Rightarrow> Fin (11 / 20) | Some q \<Rightarrow> q) (Fin (1 / 10)) (Fin 1),
             pass = False, blob = m', tried = 2 \<rparr>"
    by (simp add: encodeCanvasFitUnder_def canvasToJpegBlob_eq Let_def)
qed

text \<open>
  Scenario B in both tools: the batch tool returns fidelity \<open>0.85\<close> and size \<open>850,000\<close>,
  the browser fidelity \<open>0.55\<close> and size \<open>550,000\<close>.
\<close>

theorem C3_fallback_witness:
  "(\<exists>r tr. compressWithTarget stub_sharp ''scan.jpg'' scenario_B_args [] = (Inr r, tr) \<and>
        \<not> pass r \<and> usedQuality r = Fin (17 / 20) \<and> length (buf r) = 850000) \<and>
   fst (encodeCanvasFitUnder stub_toBlob (Some 100) (Some (Fin (17 / 20))) (Some (Fin (11 / 20))) []) =
      Inr \<lparr> usedQuality = Fin (11 / 20), pass = False, blob = replicate 550000 0, tried = 2 \<rparr>"
proof -
  have a: "maxSizeBytes scenario_B_args = Some 100 \<and> (0::nat) < 100 \<and>
    clamp01 (quality scenario_B_args) = Inr (Fin (17 / 20)) \<and>
    clamp01 (minQuality scenario_B_args) = Inr (Fin (11 / 20)) \<and>
    (\<forall>v\<in>set variants. \<exists>b m.
        variant_encode stub_sharp ''scan.jpg'' v (Fin (17 / 20)) = Some b \<and> 100 < length b \<and>
        variant_encode stub_sharp ''scan.jpg'' v (Fin (11 / 20)) = Some m \<and> 100 < length m)"
    by (simp add: scenario_B_args_def initial_args_def clamp01_def stub_variant_encode)
  have b: "(0::nat) < 100 \<and>
    stub_toBlob (clamp (case Some (Fin (17 / 20)) of None \<Rightarrow> Fin (17 / 20) | Some q \<Rightarrow> q) (Fin (1 / 10)) (Fin 1))
       = Some (replicate 850000 0) \<and>
    100 < length (replicate 850000 (0::8 word)) \<and>
    stub_toBlob (clamp (case Some (Fin (11 / 20)) of None \<Rightarrow> Fin (11 / 20) | Some q \<Rightarrow> q) (Fin (1 / 10)) (Fin 1))
       = Some (replicate 550000 0) \<and>
    100 < length (replicate 550000 (0::8 word))"
    by (simp add: clamp_def stub_toBlob_def)
  note inst = C3_fallback [of scenario_B_args 100 "Fin (17 / 20)" "Fin (11 / 20)" stub_sharp "''scan.jpg''"
      100 stub_toBlob "Some (Fin (17 / 20))" "replicate 850000 0" "Some (Fin (11 / 20))" "replicate 550000 0"]
  from inst a obtain r tr where
    r: "compressWithTarget stub_sharp ''scan.jpg'' scenario_B_args [] = (Inr r, tr)"
       "\<not> pass r" "usedQuality r = Fin (17 / 20)"
       "variant_encode stub_sharp ''scan.jpg'' (used r) (Fin (17 / 20)) = Some (buf r)"
    by blast
  from r(4) have "buf r = replicate 850000 0"
    by (simp add: stub_variant_encode)
  then have "length (buf r) = 850000"
    by simp
  moreover from inst b have
    "fst (encodeCanvasFitUnder stub_toBlob (Some 100) (Some (Fin (17 / 20))) (Some (Fin (11 / 20))) []) =
      Inr \<lparr> usedQuality = Fin (11 / 20), pass = False, blob = replicate 550000 0, tried = 2 \<rparr>"
    by (simp add: clamp_def)
  ultimately show ?thesis using r by blast
qed

text \<open>
  C4. For each variant, the binary search over the interval from the least to the base
  fidelity makes at most \<open>10\<close> probe encodes beyond the two encodes at the base and the
  least fidelity, and it ends as soon as the interval is at most \<open>0.015\<close> wide.

  The search of the batch tool is \<open>search_loop\<close>, entered with \<open>i = 0\<close>: it adds at most
  \<open>10\<close> encodes to the log; in any state whose interval is not wider than \<open>0.015\<close> it
  returns without an encode; and in a state with \<open>i < 10\<close> and a wider interval it makes
  one. With the two encodes before each search, a run over the four variants makes at
  most \<open>4 \<times> 12\<close> encodes. The search of the browser is \<open>fit_loop\<close>: at most \<open>10\<close> encodes,
  and none in a state whose interval is not wider than \<open>0.015\<close>. Its own threshold is
  \<open>0.02\<close>: it returns without an encode already when the interval is not wider than that,
  and makes one in a state with \<open>i < 10\<close> and a wider interval.
\<close>

theorem C4_bounded_search:
  "length (snd (search_loop S p a t v 0 lo hi best bestQ tr)) \<le> length tr + 10 \<and>
   (\<not> js_gt (js_sub hi' lo') (Fin (3 / 200)) \<longrightarrow>
      search_loop S p a t v i' lo' hi' best bestQ tr = (Inr (best, bestQ), tr)) \<and>
   (i < 10 \<and> js_gt (js_sub hi lo) (Fin (3 / 200)) \<longrightarrow>
      length tr < length (snd (search_loop S p a t v i lo hi best bestQ tr))) \<and>
   length (snd (compressWithTarget S p a tr)) \<le> length tr + 4 * 12 \<and>
   length (snd (fit_loop T t 0 lo hi bestBlob bestQ n btr)) \<le> length btr + 10 \<and>
   (\<not> js_gt (js_sub hi' lo') (Fin (3 / 200)) \<longrightarrow>
      fit_loop T t i' lo' hi' bestBlob bestQ n btr = (Inr (bestBlob, bestQ, n), btr)) \<and>
   (\<not> js_gt (js_sub hi'' lo'') (Fin (1 / 50)) \<longrightarrow>
      fit_loop T t i'' lo'' hi'' bestBlob bestQ n btr = (Inr (bestBlob, bestQ, n), btr)) \<and>
   (i < 10 \<and> js_gt (js_sub hi lo) (Fin (1 / 50)) \<longrightarrow>
      length btr < length (snd (fit_loop T t i lo hi bestBlob bestQ n btr)))"
proof (intro conjI impI)
  show "length (snd (search_loop S p a t v 0 lo hi best bestQ tr)) \<le> length tr + 10"
    using search_loop_count [of S p a t v 0 lo hi best bestQ tr] by simp
  show "length (snd (fit_loop T t 0 lo hi bestBlob bestQ n btr)) \<le> length btr + 10"
    using fit_loop_count [of T t 0 lo hi bestBlob bestQ n btr] by simp
  show "length (snd (compressWithTarget S p a tr)) \<le> length tr + 4 * 12"
    by (rule compressWithTarget_count)
next
  assume "\<not> js_gt (js_sub hi' lo') (Fin (3 / 200))"
  then show "search_loop S p a t v i' lo' hi' best bestQ tr = (Inr (best, bestQ), tr)"
    by (simp add: search_loop_stop)
next
  assume "i < 10 \<and> js_gt (js_sub hi lo) (Fin (3 / 200))"
  then show "length tr < length (snd (search_loop S p a t v i lo hi best bestQ tr))"
    by (simp add: search_loop_probes)
next
  assume "\<not> js_gt (js_sub hi' lo') (Fin (3 / 200))"
  then have "\<not> js_gt (js_sub hi' lo') (Fin (1 / 50))"
    using js_gt_threshold_mono [of "3 / 200" "1 / 50" "js_sub hi' lo'"] by auto
  then show "fit_loop T t i' lo' hi' bestBlob bestQ n btr = (Inr (bestBlob, bestQ, n), btr)"
    by (simp add: fit_loop_stop)
next
  assume "\<not> js_gt (js_sub hi'' lo'') (Fin (1 / 50))"
  then show "fit_loop T t i'' lo'' hi'' bestBlob bestQ n btr = (Inr (bestBlob, bestQ, n), btr)"
    by (simp add: fit_loop_stop)
next
  assume "i < 10 \<and> js_gt (js_sub hi lo) (Fin (1 / 50))"
  then show "length btr < length (snd (fit_loop T t i lo hi bestBlob bestQ n btr))"
    by (simp add: fit_loop_probes)
qed

text \<open>
  The first search of scenario A: entered on the interval from \<open>0.55\<close> to \<open>0.85\<close>, each
  loop makes a probe, and makes at most \<open>10\<close>. In the last state of the batch tool, after
  five probes, the interval from \<open>191/320\<close> to \<open>97/160\<close> is \<open>3/320\<close> wide and both loops
  return. The browser reaches the interval from \<open>47/80\<close> to \<open>97/160\<close> after four
  probes; it is \<open>3/160\<close> wide, more than \<open>0.015\<close> and less than \<open>0.02\<close>, and the browser's
  loop returns there.
\<close>

theorem C4_bounded_search_witness:
  "length (snd (search_loop stub_sharp ''scan.jpg'' scenario_A_args 600000 (variants ! 0) 0
       (Fin (11 / 20)) (Fin (17 / 20)) (replicate 550000 0) (Fin (11 / 20)) [])) \<le> 10 \<and>
   \<not> js_gt (js_sub (Fin (97 / 160)) (Fin (191 / 320))) (Fin (3 / 200)) \<and>
   search_loop stub_sharp ''scan.jpg'' scenario_A_args 600000 (variants ! 0) 5
       (Fin (191 / 320)) (Fin (97 / 160)) (replicate 550000 0) (Fin (11 / 20)) [] =
     (Inr (replicate 550000 0, Fin (11 / 20)), []) \<and>
   (0 :: nat) < 10 \<and> js_gt (js_sub (Fin (17 / 20)) (Fin (11 / 20))) (Fin (3 / 200)) \<and>
   0 < length (snd (search_loop stub_sharp ''scan.jpg'' scenario_A_args 600000 (variants ! 0) 0
       (Fin (11 / 20)) (Fin (17 / 20)) (replicate 550000 0) (Fin (11 / 20)) [])) \<and>
   fit_loop stub_toBlob 600000 5 (Fin (191 / 320)) (Fin (97 / 160)) (replicate 550000 0)
       (Fin (11 / 20)) 7 [] =
     (Inr (replicate 550000 0, Fin (11 / 20), 7), []) \<and>
   \<not> js_gt (js_sub (Fin (97 / 160)) (Fin (47 / 80))) (Fin (1 / 50)) \<and>
   js_gt (js_sub (Fin (97 / 160)) (Fin (47 / 80))) (Fin (3 / 200)) \<and>
   fit_loop stub_toBlob 600000 4 (Fin (47 / 80)) (Fin (97 / 160)) (replicate 550000 0)
       (Fin (11 / 20)) 7 [] =
     (Inr (replicate 550000 0, Fin (11 / 20), 7), []) \<and>
   js_gt (js_sub (Fin (17 / 20)) (Fin (11 / 20))) (Fin (1 / 50)) \<and>
   0 < length (snd (fit_loop stub_toBlob 600000 0 (Fin (11 / 20)) (Fin (17 / 20))
       (replicate 550000 0) (Fin (11 / 20)) 7 []))"
  using C4_bounded_search [where S = stub_sharp and p = "''scan.jpg''" and a = scenario_A_args
      and t = 600000 and v = "variants ! 0" and lo = "Fin (11 / 20)" and hi = "Fin (17 / 20)"
      and best = "replicate 550000 0" and bestQ = "Fin (11 / 20)" and tr = "[]"
      and hi' = "Fin (97 / 160)" and lo' = "Fin (191 / 320)" and i' = 5 and i = 0
      and T = stub_toBlob and bestBlob = "replicate 550000 0" and n = 7 and btr = "[]"
      and hi'' = "Fin (97 / 160)" and lo'' = "Fin (47 / 80)" and i'' = 4]
  by (simp add: js_sub_def)

text \<open>
  C5. Whenever a target is configured and the result has \<open>pass = true\<close>, the size of the
  returned buffer is at most the target. A target is configured when \<open>maxSizeBytes\<close>
  (in the browser \<open>targetBytes\<close>) is a positive number; \<open>null\<close> and \<open>0\<close> both mean none.
\<close>

theorem C5_pass_within_target:
  "(maxSizeBytes a = Some t \<and> 0 < t \<and> compressWithTarget S p a tr = (Inr r, tr') \<and> pass r
      \<longrightarrow> length (buf r) \<le> t) \<and>
   (0 < t' \<and> encodeCanvasFitUnder T (Some t') optBase optMin btr = (Inr w, btr') \<and> pass w
      \<longrightarrow> length (blob w) \<le> t')"
  using compressWithTarget_pass_fits [of a t S p tr r tr']
    encodeCanvasFitUnder_pass_fits [of t' T optBase optMin btr w btr']
  by blast

text \<open>
  The batch tool with the target \<open>900,000\<close>, which the first variant meets at the base
  fidelity, and the browser in scenario A, whose search ends on a fit of \<open>587,500\<close> bytes.
\<close>

theorem C5_pass_within_target_witness:
  "maxSizeBytes roomy_args = Some 900000 \<and> (0 :: nat) < 900000 \<and>
   fst (compressWithTarget stub_sharp ''scan.jpg'' roomy_args []) =
     Inr \<lparr> usedQuality = Fin (17 / 20), pass = True, buf = replicate 850000 0,
            used = \<lparr> subsample = ''4:4:4'', progressive = False, stripMetadata = True \<rparr> \<rparr> \<and>
   length (replicate 850000 (0 :: 8 word)) \<le> 900000 \<and>
   fst (encodeCanvasFitUnder stub_toBlob (Some 600000) (Some (Fin (17 / 20)))
          (Some (Fin (11 / 20))) []) =
     Inr \<lparr> usedQuality = Fin (47 / 80), pass = True, blob = replicate 587500 0, tried = 6 \<rparr> \<and>
   length (replicate 587500 (0 :: 8 word)) \<le> 600000"
proof -
  have m: "maxSizeBytes roomy_args = Some 900000"
    by (simp add: roomy_args_def initial_args_def)
  note inst = C5_pass_within_target [of roomy_args 900000 stub_sharp "''scan.jpg''" "[]"
      "\<lparr> usedQuality = Fin (17 / 20), pass = True, buf = replicate 850000 0,
         used = \<lparr> subsample = ''4:4:4'', progressive = False, stripMetadata = True \<rparr> \<rparr>"
      "[variant_call stub_sharp ''scan.jpg'' (variants ! 0) (Fin (17 / 20))]"
      600000 stub_toBlob "Some (Fin (17 / 20))" "Some (Fin (11 / 20))" "[]"
      "\<lparr> usedQuality = Fin (47 / 80), pass = True, blob = replicate 587500 0, tried = 6 \<rparr>"
      "[\<lparr> blob_quality = Fin (17 / 20), blob_out = Some (replicate 850000 0) \<rparr>,
       \<lparr> blob_quality = Fin (11 / 20), blob_out = Some (replicate 550000 0) \<rparr>,
       \<lparr> blob_quality = Fin (7 / 10), blob_out = Some (replicate 700000 0) \<rparr>,
       \<lparr> blob_quality = Fin (5 / 8), blob_out = Some (replicate 625000 0) \<rparr>,
       \<lparr> blob_quality = Fin (47 / 80), blob_out = Some (replicate 587500 0) \<rparr>,
       \<lparr> blob_quality = Fin (97 / 160), blob_out = Some (replicate 606250 0) \<rparr>]"]
  from inst m roomy_cli_run scenario_A_web_run show ?thesis
    by simp
qed

text \<open>
  C6. The claim: a configuration whose least fidelity (\<open>--min-quality\<close>) is above its
  base fidelity (\<open>--quality\<close>) is an invalid configuration, rejected before any encode.

  Neither \<open>parseArgs\<close> nor \<open>compressWithTarget\<close> compares the two. The command line
  \<open>--quality 0.5 --min-quality 0.9 --fit-under 100 scan.jpg\<close> is accepted, and the run
  makes eight encodes, at \<open>0.5\<close> and at \<open>0.9\<close> for each variant, and returns a result.
\<close>

theorem C6_counterexample_inverted_accepted:
  "parseArgs Number_decimal inverted_argv = Inr inverted_args \<and>
   quality inverted_args = Fin (1 / 2) \<and> minQuality inverted_args = Fin (9 / 10) \<and>
   fst (compressWithTarget stub_sharp ''scan.jpg'' inverted_args []) =
     Inr \<lparr> usedQuality = Fin (1 / 2), pass = False, buf = replicate 500000 0,
            used = \<lparr> subsample = ''4:4:4'', progressive = False, stripMetadata = True \<rparr> \<rparr> \<and>
   map call_quality (snd (compressWithTarget stub_sharp ''scan.jpg'' inverted_args [])) =
     [Fin (1 / 2), Fin (9 / 10), Fin (1 / 2), Fin (9 / 10),
      Fin (1 / 2), Fin (9 / 10), Fin (1 / 2), Fin (9 / 10)]"
proof -
  have "quality inverted_args = Fin (1 / 2) \<and> minQuality inverted_args = Fin (9 / 10)"
    by (simp add: inverted_args_def initial_args_def)
  moreover have "fst (compressWithTarget stub_sharp ''scan.jpg'' inverted_args []) =
     Inr \<lparr> usedQuality = Fin (1 / 2), pass = False, buf = replicate 500000 0,
            used = \<lparr> subsample = ''4:4:4'', progressive = False, stripMetadata = True \<rparr> \<rparr>"
    by (simp add: inverted_args_def eval_cli)
  moreover have "map call_quality (snd (compressWithTarget stub_sharp ''scan.jpg'' inverted_args [])) =
     [Fin (1 / 2), Fin (9 / 10), Fin (1 / 2), Fin (9 / 10),
      Fin (1 / 2), Fin (9 / 10), Fin (1 / 2), Fin (9 / 10)]"
    by (simp add: inverted_args_def eval_cli)
  ultimately show ?thesis
    using parseArgs_inverted by simp
qed

text \<open>
  C6, as amended. A configuration whose least fidelity is above its base fidelity is
  not rejected: \<open>parseArgs\<close> clamps the two values one by one and never compares them.
  When \<open>parseArgs\<close> has accepted such a command line with a target, \<open>compressWithTarget\<close>
  makes its first encode with the first variant at the base fidelity, every encode it
  makes is at the base or at the least fidelity (no search makes a probe), and the
  only failure it can end in is a failed encode.
\<close>

theorem C6_inverted_not_rejected:
  "parseArgs N argv = Inr a \<and> maxSizeBytes a = Some t \<and> 0 < t \<and>
   quality a = Fin q \<and> minQuality a = Fin m \<and> q < m \<longrightarrow>
     (\<exists>cs. snd (compressWithTarget S p a []) = variant_call S p (variants ! 0) (Fin q) # cs) \<and>
     list_all (\<lambda>c. call_quality c = Fin q \<or> call_quality c = Fin m)
       (snd (compressWithTarget S p a [])) \<and>
     (\<forall>e. fst (compressWithTarget S p a []) = Inl e \<longrightarrow> e = EncodeFailure)"
proof (intro impI)
  assume h: "parseArgs N argv = Inr a \<and> maxSizeBytes a = Some t \<and> 0 < t \<and>
   quality a = Fin q \<and> minQuality a = Fin m \<and> q < m"
  then have v: "valid_fidelity (Fin q)" "valid_fidelity (Fin m)"
    using parseArgs_valid [of N argv a] by auto
  have run: "compressWithTarget S p a [] =
      variants_loop S p a t (Fin q) (Fin m) variants None None []"
    using h v by (simp add: compressWithTarget_target clamp01_fixed)
  obtain v0 vs where vs: "variants = v0 # vs" "variants ! 0 = v0"
    by (simp add: variants_def)
  have first: "\<exists>cs. snd (compressWithTarget S p a []) = variant_call S p (variants ! 0) (Fin q) # cs"
    using variants_loop_first_encode [of S p a t "Fin q" "Fin m" v0 vs None None "[]"] run vs
    by simp
  have narrow: "\<not> js_gt (js_sub (Fin q) (Fin m)) (Fin (3 / 200))"
    using h by (simp add: js_gt_inverted)
  have only: "list_all (\<lambda>c. call_quality c = Fin q \<or> call_quality c = Fin m)
       (snd (compressWithTarget S p a []))"
    using variants_loop_no_probe [OF narrow, of "[]" S p a t variants None None] run by simp
  have err: "\<forall>e. fst (compressWithTarget S p a []) = Inl e \<longrightarrow> e = EncodeFailure"
    using variants_loop_error [of S p a t "Fin q" "Fin m" variants None None "[]"]
      run variants_nonempty
    by (metis prod.collapse)
  from first only err show
    "(\<exists>cs. snd (compressWithTarget S p a []) = variant_call S p (variants ! 0) (Fin q) # cs) \<and>
     list_all (\<lambda>c. call_quality c = Fin q \<or> call_quality c = Fin m)
       (snd (compressWithTarget S p a [])) \<and>
     (\<forall>e. fst (compressWithTarget S p a []) = Inl e \<longrightarrow> e = EncodeFailure)"
    by blast
qed

text \<open>The command line above, through the theorem.\<close>

theorem C6_inverted_not_rejected_witness:
  "parseArgs Number_decimal inverted_argv = Inr inverted_args \<and>
   maxSizeBytes inverted_args = Some 100 \<and> (0 :: nat) < 100 \<and>
   quality inverted_args = Fin (1 / 2) \<and> minQuality inverted_args = Fin (9 / 10) \<and>
   (1 / 2 :: rat) < 9 / 10 \<and>
   (\<exists>cs. snd (compressWithTarget stub_sharp ''scan.jpg'' inverted_args []) =
      variant_call stub_sharp ''scan.jpg'' (variants ! 0) (Fin (1 / 2)) # cs) \<and>
   list_all (\<lambda>c. call_quality c = Fin (1 / 2) \<or> call_quality c = Fin (9 / 10))
     (snd (compressWithTarget stub_sharp ''scan.jpg'' inverted_args []))"
proof -
  have f: "maxSizeBytes inverted_args = Some 100 \<and> (0 :: nat) < 100 \<and>
     quality inverted_args = Fin (1 / 2) \<and> minQuality inverted_args = Fin (9 / 10) \<and>
     (1 / 2 :: rat) < 9 / 10"
    by (simp add: inverted_args_def initial_args_def)
  from C6_inverted_not_rejected [of Number_decimal inverted_argv inverted_args 100 "1 / 2" "9 / 10"
      stub_sharp "''scan.jpg''"] parseArgs_inverted f
  show ?thesis by blast
qed

text \<open>
  C7. The claim: with no target, exactly one encode is made, at the clamped base
  fidelity with the first variant of the table, and the result has \<open>pass = true\<close> and
  \<open>usedQuality\<close> the base fidelity, whatever the size.

  The one encode of the batch tool has no overrides, so its knobs are those of the
  command line, which need not be the first variant: for
  \<open>--subsample 4:2:0 --progressive --keep-metadata scan.jpg\<close> the encode is \<open>4:2:0\<close>,
  progressive, and keeps the metadata.
\<close>

theorem C7_counterexample_passthrough_knobs:
  "parseArgs Number_decimal custom_argv = Inr custom_args \<and>
   maxSizeBytes custom_args = None \<and>
   compressWithTarget stub_sharp ''scan.jpg'' custom_args [] =
     (Inr \<lparr> usedQuality = Fin (17 / 20), pass = True, buf = replicate 850000 0,
            used = \<lparr> subsample = ''4:2:0'', progressive = True, stripMetadata = False \<rparr> \<rparr>,
      [\<lparr> call_path = ''scan.jpg'', call_quality = Fin (17 / 20), call_withMetadata = True,
         call_opts = \<lparr> jpeg_quality = Fin 85, jpeg_progressive = True,
                       chromaSubsampling = ''4:2:0'', mozjpeg = True, optimizeCoding = True \<rparr>,
         call_out = Some (replicate 850000 0) \<rparr>]) \<and>
   variants ! 0 = \<lparr> subsample = ''4:4:4'', progressive = False, stripMetadata = True \<rparr> \<and>
   \<lparr> subsample = ''4:2:0'', progressive = True, stripMetadata = False \<rparr> \<noteq> variants ! 0"
proof -
  have "maxSizeBytes custom_args = None"
    by (simp add: custom_args_def initial_args_def)
  moreover have "variants ! 0 = \<lparr> subsample = ''4:4:4'', progressive = False, stripMetadata = True \<rparr>"
    by (simp add: variants_def)
  ultimately show ?thesis
    using parseArgs_custom custom_cli_run by simp
qed

text \<open>
  C7, as amended. With no target (\<open>maxSizeBytes\<close>, in the browser \<open>targetBytes\<close>, is
  \<open>null\<close>), exactly one encode is made, at the clamped base fidelity, and a result, when
  that encode succeeds, has \<open>pass = true\<close>, \<open>usedQuality\<close> the base fidelity and the output
  of that encode, whatever its size. In the batch tool the knobs of the encode are those
  of the command line (\<open>--subsample\<close>, \<open>--progressive\<close>, \<open>--keep-metadata\<close>), which the
  result reports in \<open>used\<close>; they are the first variant of the table when the command
  line leaves them at their defaults. The browser has no variants.
\<close>

theorem C7_passthrough:
  "(parseArgs N argv = Inr a \<and> maxSizeBytes a = None \<longrightarrow>
      valid_fidelity (quality a) \<and>
      (\<exists>c. snd (compressWithTarget S p a []) = [c] \<and>
           call_quality c = quality a \<and>
           call_withMetadata c = (\<not> stripMetadata a) \<and>
           jpeg_progressive (call_opts c) = progressive a \<and>
           chromaSubsampling (call_opts c) = subsample a \<and>
           (\<forall>r. fst (compressWithTarget S p a []) = Inr r \<longrightarrow>
                pass r \<and> usedQuality r = quality a \<and> call_out c = Some (buf r) \<and>
                used r = \<lparr> subsample = subsample a, progressive = progressive a,
                           stripMetadata = stripMetadata a \<rparr>) \<and>
           (subsample a = ''4:4:4'' \<and> \<not> progressive a \<and> stripMetadata a \<longrightarrow>
                c = variant_call S p (variants ! 0) (quality a)))) \<and>
   (\<exists>c. snd (encodeCanvasFitUnder T None optBase optMin []) = [c] \<and>
        blob_quality c =
          clamp (case optBase of None \<Rightarrow> Fin (17 / 20) | Some q \<Rightarrow> q) (Fin (1 / 10)) (Fin 1) \<and>
        (\<forall>w. fst (encodeCanvasFitUnder T None optBase optMin []) = Inr w \<longrightarrow>
             pass w \<and> usedQuality w = blob_quality c \<and> blob_out c = Some (blob w) \<and>
             tried w = 1))"
proof (intro conjI impI)
  assume h: "parseArgs N argv = Inr a \<and> maxSizeBytes a = None"
  then show "valid_fidelity (quality a)"
    using parseArgs_valid [of N argv a] by simp
  from h have u: "maxSizeBytes a = None \<or> maxSizeBytes a = Some 0"
    by simp
  show "\<exists>c. snd (compressWithTarget S p a []) = [c] \<and>
           call_quality c = quality a \<and>
           call_withMetadata c = (\<not> stripMetadata a) \<and>
           jpeg_progressive (call_opts c) = progressive a \<and>
           chromaSubsampling (call_opts c) = subsample a \<and>
           (\<forall>r. fst (compressWithTarget S p a []) = Inr r \<longrightarrow>
                pass r \<and> usedQuality r = quality a \<and> call_out c = Some (buf r) \<and>
                used r = \<lparr> subsample = subsample a, progressive = progressive a,
                           stripMetadata = stripMetadata a \<rparr>) \<and>
           (subsample a = ''4:4:4'' \<and> \<not> progressive a \<and> stripMetadata a \<longrightarrow>
                c = variant_call S p (variants ! 0) (quality a))"
    by (auto simp: compressWithTarget_unset [OF u] jpegOpts_def variant_call_def
        variant_encode_def variant_opts_def variants_def split: option.splits)
next
  show "\<exists>c. snd (encodeCanvasFitUnder T None optBase optMin []) = [c] \<and>
        blob_quality c =
          clamp (case optBase of None \<Rightarrow> Fin (17 / 20) | Some q \<Rightarrow> q) (Fin (1 / 10)) (Fin 1) \<and>
        (\<forall>w. fst (encodeCanvasFitUnder T None optBase optMin []) = Inr w \<longrightarrow>
             pass w \<and> usedQuality w = blob_quality c \<and> blob_out c = Some (blob w) \<and>
             tried w = 1)"
    by (auto simp: encodeCanvasFitUnder_unset split: option.splits)
qed

text \<open>
  Scenario C (no target, the default knobs) and the command line of the counterexample,
  in the batch tool; scenario C in the browser.
\<close>

theorem C7_passthrough_witness:
  "parseArgs Number_decimal scenario_C_argv = Inr scenario_C_args \<and>
   maxSizeBytes scenario_C_args = None \<and>
   valid_fidelity (quality scenario_C_args) \<and>
   snd (compressWithTarget stub_sharp ''scan.jpg'' scenario_C_args []) =
     [variant_call stub_sharp ''scan.jpg'' (variants ! 0) (Fin (17 / 20))] \<and>
   parseArgs Number_decimal custom_argv = Inr custom_args \<and>
   maxSizeBytes custom_args = None \<and>
   valid_fidelity (quality custom_args) \<and>
   (\<exists>c. snd (encodeCanvasFitUnder stub_toBlob None (Some (Fin (17 / 20))) None []) = [c] \<and>
        blob_quality c = Fin (17 / 20))"
proof -
  have m: "maxSizeBytes scenario_C_args = None" "maxSizeBytes custom_args = None"
    by (simp_all add: scenario_C_args_def custom_args_def initial_args_def)
  have v: "valid_fidelity (quality scenario_C_args)"
    using C7_passthrough [of Number_decimal scenario_C_argv scenario_C_args]
      parseArgs_scenario_C m
    by blast
  have v': "valid_fidelity (quality custom_args)"
    using C7_passthrough [of Number_decimal custom_argv custom_args] parseArgs_custom m
    by blast
  have w: "\<exists>c. snd (encodeCanvasFitUnder stub_toBlob None (Some (Fin (17 / 20))) None []) = [c] \<and>
        blob_quality c = Fin (17 / 20)"
    using C7_passthrough [THEN conjunct2, of stub_toBlob "Some (Fin (17 / 20))" None]
    by (auto simp: clamp_def)
  show ?thesis
    using parseArgs_scenario_C parseArgs_custom m v v' w scenario_C_cli_run by simp
qed

text \<open>
  C8. The claim: the normaliser maps a string of digits to exactly that number of
  bytes, and a numeric value followed by \<open>kb\<close>, \<open>mb\<close> or \<open>gb\<close> (in either case) to the
  value times \<open>1024\<close>, \<open>1024\<^sup>2\<close> or \<open>1024\<^sup>3\<close>, floored; its output is a positive integer or
  "no constraint", and every other form, a target that is not positive included, is a
  configuration error.

  A target of zero is not an error: \<open>parseSizeToBytes\<close> returns \<open>0\<close> for \<open>0\<close>, for \<open>0kb\<close>
  and for \<open>0.0001kb\<close>, and \<open>parseArgs\<close> stores it in \<open>maxSizeBytes\<close>.
\<close>

theorem C8_counterexample_zero_size:
  "parseSizeToBytes ''0'' = Inr 0 \<and>
   parseSizeToBytes ''0kb'' = Inr 0 \<and>
   parseSizeToBytes ''0.0001kb'' = Inr 0 \<and>
   parseArgs Number_decimal zero_argv = Inr zero_args \<and>
   maxSizeBytes zero_args = Some 0"
proof -
  have "parseSizeToBytes ''0'' = Inr 0"
    by (simp add: eval_size)
  moreover have "parseSizeToBytes ''0kb'' = Inr 0"
    by (simp add: eval_size)
  moreover have "parseSizeToBytes ''0.0001kb'' = Inr 0"
    by (simp add: eval_size)
  moreover have "maxSizeBytes zero_args = Some 0"
    by (simp add: zero_args_def initial_args_def)
  ultimately show ?thesis
    using parseArgs_zero by simp
qed

text \<open>
  C8, as amended. \<open>parseSizeToBytes\<close> trims the expression and puts it in lower case.
  For an expression of ASCII characters, what is left is read as follows. A string of
  digits below \<open>2\<^sup>5\<^sup>3\<close> is exactly that number of bytes. Digits followed by \<open>kb\<close>, \<open>mb\<close>
  or \<open>gb\<close> are that number times \<open>1024\<close>, \<open>1024\<^sup>2\<close> or \<open>1024\<^sup>3\<close>, when the product is
  below \<open>2\<^sup>5\<^sup>3\<close>. Digits, a point, digits and a unit are the decimal value times the
  factor, floored, when the digits read without the point, times the factor, are below
  \<open>2\<^sup>5\<^sup>3\<close>; within that bound the floor is the same for every reading \<open>d\<close> of the number
  that is as close to it as the nearest double. Every other form is the error
  \<open>InvalidMaxSize\<close>. (Beyond the bounds the source rounds to a double, and nothing is
  stated.) The output may be \<open>0\<close>. "No constraint" comes from \<open>parseArgs\<close>:
  \<open>maxSizeBytes\<close> is \<open>null\<close> exactly when neither \<open>--fit-under\<close> nor \<open>--max-size\<close> gave a
  size or the size given is the empty string, and otherwise it is what
  \<open>parseSizeToBytes\<close> returns for the size. A \<open>maxSizeBytes\<close> of \<open>0\<close> is then treated by
  \<open>compressWithTarget\<close> as no target.
\<close>

theorem C8_size_forms:
  "(is_ascii s1 \<and> all_digits (toLowerCase (trim s1)) \<and>
    digits_value (toLowerCase (trim s1)) < 2 ^ 53 \<longrightarrow>
      parseSizeToBytes s1 = Inr (digits_value (toLowerCase (trim s1)))) \<and>
   digits_value [] = 0 \<and>
   digits_value (ds @ [c]) = 10 * digits_value ds + digit_val c \<and>
   (is_ascii s2 \<and> toLowerCase (trim s2) = ip2 @ u2 \<and> all_digits ip2 \<and>
    u2 \<in> {''kb'', ''mb'', ''gb''} \<and> digits_value ip2 * unit_factor u2 < 2 ^ 53 \<longrightarrow>
      parseSizeToBytes s2 = Inr (digits_value ip2 * unit_factor u2)) \<and>
   (is_ascii s3 \<and> toLowerCase (trim s3) = ip3 @ ''.'' @ fp3 @ u3 \<and> all_digits ip3 \<and>
    all_digits fp3 \<and> u3 \<in> {''kb'', ''mb'', ''gb''} \<and>
    digits_value (ip3 @ fp3) * unit_factor u3 < 2 ^ 53 \<longrightarrow>
      parseSizeToBytes s3 =
        Inr (nat \<lfloor>(of_nat (digits_value ip3) + of_nat (digits_value fp3) / 10 ^ length fp3 :: rat)
                    * of_nat (unit_factor u3)\<rfloor>)) \<and>
   (all_digits ip6 \<and> all_digits fp6 \<and> u6 \<in> {''kb'', ''mb'', ''gb''} \<and>
    digits_value (ip6 @ fp6) * unit_factor u6 < 2 ^ 53 \<and>
    \<bar>d6 - decimal_value (ip6 @ ''.'' @ fp6)\<bar> * 2 ^ 53 \<le> decimal_value (ip6 @ ''.'' @ fp6) \<and>
    (of_int \<lfloor>decimal_value (ip6 @ ''.'' @ fp6) * of_nat (unit_factor u6)\<rfloor>
       = decimal_value (ip6 @ ''.'' @ fp6) * of_nat (unit_factor u6) \<longrightarrow>
     d6 = decimal_value (ip6 @ ''.'' @ fp6)) \<longrightarrow>
      \<lfloor>d6 * of_nat (unit_factor u6)\<rfloor>
        = \<lfloor>decimal_value (ip6 @ ''.'' @ fp6) * of_nat (unit_factor u6)\<rfloor>) \<and>
   (is_ascii s4 \<and> parseSizeToBytes s4 = Inr n4 \<longrightarrow>
      (\<exists>ip fp u. all_digits ip \<and>
           (toLowerCase (trim s4) = ip \<or>
            u \<in> {''kb'', ''mb'', ''gb''} \<and>
              (toLowerCase (trim s4) = ip @ u \<or>
               all_digits fp \<and> toLowerCase (trim s4) = ip @ ''.'' @ fp @ u)))) \<and>
   (is_ascii s5 \<and> parseSizeToBytes s5 = Inl e5 \<longrightarrow> e5 = InvalidMaxSize s5) \<and>
   (parseArgs N argv = Inr a \<longrightarrow>
      (maxSizeBytes a = None \<longleftrightarrow>
         fitUnder a = None \<and> maxSize a = None \<or> fitUnder a = Some [] \<or>
         fitUnder a = None \<and> maxSize a = Some []) \<and>
      (\<forall>n. maxSizeBytes a = Some n \<longrightarrow>
         (\<exists>s. s \<noteq> [] \<and> (fitUnder a = Some s \<or> fitUnder a = None \<and> maxSize a = Some s) \<and>
              parseSizeToBytes s = Inr n))) \<and>
   (maxSizeBytes a0 = Some 0 \<longrightarrow>
      compressWithTarget S p a0 tr = compressWithTarget S p (a0\<lparr>maxSizeBytes := None\<rparr>) tr)"
proof (intro conjI impI allI)
  show "digits_value [] = 0"
    by (rule digits_value_Nil)
  show "digits_value (ds @ [c]) = 10 * digits_value ds + digit_val c"
    by (rule digits_value_snoc)
next
  assume "is_ascii s1 \<and> all_digits (toLowerCase (trim s1)) \<and>
    digits_value (toLowerCase (trim s1)) < 2 ^ 53"
  then show "parseSizeToBytes s1 = Inr (digits_value (toLowerCase (trim s1)))"
    by (simp add: parseSizeToBytes_digits)
next
  assume "is_ascii s2 \<and> toLowerCase (trim s2) = ip2 @ u2 \<and> all_digits ip2 \<and>
    u2 \<in> {''kb'', ''mb'', ''gb''} \<and> digits_value ip2 * unit_factor u2 < 2 ^ 53"
  then show "parseSizeToBytes s2 = Inr (digits_value ip2 * unit_factor u2)"
    using parseSizeToBytes_int_unit [of s2 ip2 u2] by blast
next
  assume "is_ascii s3 \<and> toLowerCase (trim s3) = ip3 @ ''.'' @ fp3 @ u3 \<and> all_digits ip3 \<and>
    all_digits fp3 \<and> u3 \<in> {''kb'', ''mb'', ''gb''} \<and>
    digits_value (ip3 @ fp3) * unit_factor u3 < 2 ^ 53"
  then show "parseSizeToBytes s3 =
        Inr (nat \<lfloor>(of_nat (digits_value ip3) + of_nat (digits_value fp3) / 10 ^ length fp3 :: rat)
                    * of_nat (unit_factor u3)\<rfloor>)"
    using parseSizeToBytes_frac_unit [of s3 ip3 fp3 u3] by blast
next
  assume h: "all_digits ip6 \<and> all_digits fp6 \<and> u6 \<in> {''kb'', ''mb'', ''gb''} \<and>
    digits_value (ip6 @ fp6) * unit_factor u6 < 2 ^ 53 \<and>
    \<bar>d6 - decimal_value (ip6 @ ''.'' @ fp6)\<bar> * 2 ^ 53 \<le> decimal_value (ip6 @ ''.'' @ fp6) \<and>
    (of_int \<lfloor>decimal_value (ip6 @ ''.'' @ fp6) * of_nat (unit_factor u6)\<rfloor>
       = decimal_value (ip6 @ ''.'' @ fp6) * of_nat (unit_factor u6) \<longrightarrow>
     d6 = decimal_value (ip6 @ ''.'' @ fp6))"
  then have "0 < unit_factor u6"
    by (auto simp: unit_factor_def)
  with h show "\<lfloor>d6 * of_nat (unit_factor u6)\<rfloor>
        = \<lfloor>decimal_value (ip6 @ ''.'' @ fp6) * of_nat (unit_factor u6)\<rfloor>"
    using floor_rounded_reading [of ip6 fp6 "unit_factor u6" d6] by blast
next
  assume "is_ascii s4 \<and> parseSizeToBytes s4 = Inr n4"
  then show "\<exists>ip fp u. all_digits ip \<and>
           (toLowerCase (trim s4) = ip \<or>
            u \<in> {''kb'', ''mb'', ''gb''} \<and>
              (toLowerCase (trim s4) = ip @ u \<or>
               all_digits fp \<and> toLowerCase (trim s4) = ip @ ''.'' @ fp @ u))"
    using parseSizeToBytes_forms [of s4 n4] by blast
next
  assume "is_ascii s5 \<and> parseSizeToBytes s5 = Inl e5"
  then show "e5 = InvalidMaxSize s5"
    using parseSizeToBytes_error [of s5 e5] by blast
next
  assume "parseArgs N argv = Inr a"
  then show "maxSizeBytes a = None \<longleftrightarrow>
         fitUnder a = None \<and> maxSize a = None \<or> fitUnder a = Some [] \<or>
         fitUnder a = None \<and> maxSize a = Some []"
    by (rule parseArgs_size(1))
next
  fix n
  assume "parseArgs N argv = Inr a" "maxSizeBytes a = Some n"
  then show "\<exists>s. s \<noteq> [] \<and> (fitUnder a = Some s \<or> fitUnder a = None \<and> maxSize a = Some s) \<and>
              parseSizeToBytes s = Inr n"
    by (rule parseArgs_size(2))
next
  assume "maxSizeBytes a0 = Some 0"
  then show "compressWithTarget S p a0 tr = compressWithTarget S p (a0\<lparr>maxSizeBytes := None\<rparr>) tr"
    by (rule compressWithTarget_zero)
qed

text \<open>
  The sizes \<open>5000000\<close>, \<open> 600KB \<close> (\<open>614,400\<close> bytes) and \<open>1.5mb\<close> (\<open>1,572,864\<close> bytes);
  the size \<open>0.1kb\<close>, \<open>102\<close> bytes, with the double nearest to \<open>0.1\<close>, which is
  \<open>3602879701896397 / 2\<^sup>5\<^sup>5\<close>; the form of \<open>6mb\<close>; the error for \<open>-5\<close>; scenario A, whose
  target comes from \<open>--fit-under\<close>; and the command line with the size \<open>0\<close>, which runs
  as if it had no target.
\<close>

theorem C8_size_forms_witness:
  "is_ascii ''5000000'' \<and> all_digits (toLowerCase (trim ''5000000'')) \<and>
   digits_value (toLowerCase (trim ''5000000'')) < 2 ^ 53 \<and>
   parseSizeToBytes ''5000000'' = Inr 5000000 \<and>
   is_ascii '' 600KB '' \<and>
   toLowerCase (trim '' 600KB '') = ''600'' @ ''kb'' \<and> all_digits ''600'' \<and>
   ''kb'' \<in> {''kb'', ''mb'', ''gb''} \<and> digits_value ''600'' * unit_factor ''kb'' < 2 ^ 53 \<and>
   parseSizeToBytes '' 600KB '' = Inr 614400 \<and>
   is_ascii ''1.5mb'' \<and>
   toLowerCase (trim ''1.5mb'') = ''1'' @ ''.'' @ ''5'' @ ''mb'' \<and> all_digits ''1'' \<and>
   all_digits ''5'' \<and> ''mb'' \<in> {''kb'', ''mb'', ''gb''} \<and>
   digits_value (''1'' @ ''5'') * unit_factor ''mb'' < 2 ^ 53 \<and>
   parseSizeToBytes ''1.5mb'' = Inr 1572864 \<and>
   all_digits ''0'' \<and> all_digits ''1'' \<and>
   digits_value (''0'' @ ''1'') * unit_factor ''kb'' < 2 ^ 53 \<and>
   decimal_value (''0'' @ ''.'' @ ''1'') = 1 / 10 \<and>
   \<bar>3602879701896397 / 36028797018963968 - decimal_value (''0'' @ ''.'' @ ''1'')\<bar> * 2 ^ 53
     \<le> decimal_value (''0'' @ ''.'' @ ''1'') \<and>
   of_int \<lfloor>decimal_value (''0'' @ ''.'' @ ''1'') * of_nat (unit_factor ''kb'')\<rfloor>
     \<noteq> decimal_value (''0'' @ ''.'' @ ''1'') * of_nat (unit_factor ''kb'') \<and>
   \<lfloor>3602879701896397 / 36028797018963968 * of_nat (unit_factor ''kb'') :: rat\<rfloor> = 102 \<and>
   parseSizeToBytes ''0.1kb'' = Inr 102 \<and>
   is_ascii ''6mb'' \<and>
   parseSizeToBytes ''6mb'' = Inr 6291456 \<and>
   (\<exists>ip fp u. all_digits ip \<and>
        (toLowerCase (trim ''6mb'') = ip \<or>
         u \<in> {''kb'', ''mb'', ''gb''} \<and>
           (toLowerCase (trim ''6mb'') = ip @ u \<or>
            all_digits fp \<and> toLowerCase (trim ''6mb'') = ip @ ''.'' @ fp @ u))) \<and>
   is_ascii ''-5'' \<and>
   parseSizeToBytes ''-5'' = Inl (InvalidMaxSize ''-5'') \<and>
   parseArgs Number_decimal scenario_A_argv = Inr scenario_A_args \<and>
   maxSizeBytes scenario_A_args = Some 600000 \<and>
   (\<exists>s. s \<noteq> [] \<and>
        (fitUnder scenario_A_args = Some s \<or>
         fitUnder scenario_A_args = None \<and> maxSize scenario_A_args = Some s) \<and>
        parseSizeToBytes s = Inr 600000) \<and>
   maxSizeBytes zero_args = Some 0 \<and>
   compressWithTarget stub_sharp ''scan.jpg'' zero_args [] =
     compressWithTarget stub_sharp ''scan.jpg'' (zero_args\<lparr>maxSizeBytes := None\<rparr>) []"
proof -
  note inst = C8_size_forms [where ?s1.0 = "''5000000''" and ?s2.0 = "'' 600KB ''"
      and ?ip2.0 = "''600''" and ?u2.0 = "''kb''" and ?s3.0 = "''1.5mb''" and ?ip3.0 = "''1''"
      and ?fp3.0 = "''5''" and ?u3.0 = "''mb''" and ?ip6.0 = "''0''" and ?fp6.0 = "''1''"
      and ?u6.0 = "''kb''" and ?d6.0 = "3602879701896397 / 36028797018963968"
      and ?s4.0 = "''6mb''" and ?n4.0 = 6291456
      and ?s5.0 = "''-5''" and ?e5.0 = "InvalidMaxSize ''-5''" and N = Number_decimal
      and argv = scenario_A_argv and a = scenario_A_args and ?a0.0 = zero_args
      and S = stub_sharp and p = "''scan.jpg''" and tr = "[]"]
  note c1 = inst [THEN conjunct1, THEN mp]
  note r = inst [THEN conjunct2, THEN conjunct2, THEN conjunct2]
  note c2 = r [THEN conjunct1, THEN mp]
  note c3 = r [THEN conjunct2, THEN conjunct1, THEN mp]
  note c6 = r [THEN conjunct2, THEN conjunct2, THEN conjunct1, THEN mp]
  note c4 = r [THEN conjunct2, THEN conjunct2, THEN conjunct2, THEN conjunct1, THEN mp]
  note c7 = r [THEN conjunct2, THEN conjunct2, THEN conjunct2, THEN conjunct2, THEN conjunct2,
      THEN conjunct1, THEN mp]
  note c0 = r [THEN conjunct2, THEN conjunct2, THEN conjunct2, THEN conjunct2, THEN conjunct2,
      THEN conjunct2, THEN mp]
  have a1: "is_ascii ''5000000''" and a2: "is_ascii '' 600KB ''" and a3: "is_ascii ''1.5mb''"
    and a4: "is_ascii ''6mb''" and a5: "is_ascii ''-5''"
    by (simp_all add: is_ascii_def)
  have u: "''kb'' \<in> {''kb'', ''mb'', ''gb''}" "''mb'' \<in> {''kb'', ''mb'', ''gb''}"
    by simp_all
  have k: "unit_factor ''kb'' = 1024" "unit_factor ''mb'' = 1048576"
    by (simp_all add: unit_factor_def)
  have h1: "all_digits (toLowerCase (trim ''5000000''))"
    by (simp add: eval_size)
  have v1: "digits_value (toLowerCase (trim ''5000000'')) = 5000000"
    by (simp add: eval_size)
  have b1: "digits_value (toLowerCase (trim ''5000000'')) < 2 ^ 53"
    by (simp add: v1)
  have r1: "parseSizeToBytes ''5000000'' = Inr 5000000"
    using c1 a1 h1 b1 by (simp add: v1)
  have h2: "toLowerCase (trim '' 600KB '') = ''600'' @ ''kb''"
    by code_simp
  have g2: "all_digits ''600''"
    by (simp add: eval_size)
  have v2: "digits_value ''600'' * unit_factor ''kb'' = 614400"
    by (simp add: eval_size)
  have b2: "digits_value ''600'' * unit_factor ''kb'' < 2 ^ 53"
    by (simp add: v2)
  have r2: "parseSizeToBytes '' 600KB '' = Inr 614400"
    using c2 a2 h2 g2 u(1) b2 by (simp add: v2)
  have h3: "toLowerCase (trim ''1.5mb'') = ''1'' @ ''.'' @ ''5'' @ ''mb''"
    by (simp add: eval_size)
  have g3: "all_digits ''1''" "all_digits ''5''"
    by (simp_all add: eval_size)
  have b3: "digits_value (''1'' @ ''5'') * unit_factor ''mb'' < 2 ^ 53"
    by (simp add: eval_size)
  have v3: "nat \<lfloor>(of_nat (digits_value ''1'') + of_nat (digits_value ''5'') / 10 ^ length ''5'' :: rat)
                    * of_nat (unit_factor ''mb'')\<rfloor> = 1572864"
    by (simp add: eval_size)
  have "parseSizeToBytes ''1.5mb'' =
      Inr (nat \<lfloor>(of_nat (digits_value ''1'') + of_nat (digits_value ''5'') / 10 ^ length ''5'' :: rat)
                    * of_nat (unit_factor ''mb'')\<rfloor>)"
    using a3 h3 g3 u(2) b3 by (intro c3) blast
  then have r3: "parseSizeToBytes ''1.5mb'' = Inr 1572864"
    unfolding v3 .
  have g6: "all_digits ''0''"
    by (simp add: eval_size)
  have b6: "digits_value (''0'' @ ''1'') * unit_factor ''kb'' < 2 ^ 53"
    by (simp add: eval_size)
  have d: "decimal_value ''0.1'' = 1 / 10"
    by (simp add: eval_size)
  have d6: "decimal_value (''0'' @ ''.'' @ ''1'') = 1 / 10"
    by (simp add: d)
  have f6: "\<lfloor>decimal_value (''0'' @ ''.'' @ ''1'') * of_nat (unit_factor ''kb'')\<rfloor> = 102"
    by (simp add: d k)
  have t1: "\<bar>3602879701896397 / 36028797018963968 - decimal_value (''0'' @ ''.'' @ ''1'')\<bar> * 2 ^ 53
     \<le> decimal_value (''0'' @ ''.'' @ ''1'')"
    by (simp add: d)
  have t2: "of_int \<lfloor>decimal_value (''0'' @ ''.'' @ ''1'') * of_nat (unit_factor ''kb'')\<rfloor>
     \<noteq> decimal_value (''0'' @ ''.'' @ ''1'') * of_nat (unit_factor ''kb'')"
    unfolding f6 by (simp add: d k)
  have "\<lfloor>3602879701896397 / 36028797018963968 * of_nat (unit_factor ''kb'') :: rat\<rfloor>
      = \<lfloor>decimal_value (''0'' @ ''.'' @ ''1'') * of_nat (unit_factor ''kb'')\<rfloor>"
    using g6 g3(1) u(1) b6 t1 t2 by (intro c6) blast
  then have r6: "\<lfloor>3602879701896397 / 36028797018963968 * of_nat (unit_factor ''kb'') :: rat\<rfloor> = 102"
    unfolding f6 .
  have r6': "parseSizeToBytes ''0.1kb'' = Inr 102"
    by (simp add: eval_size)
  have r4: "parseSizeToBytes ''6mb'' = Inr 6291456"
    by (simp add: eval_size)
  have f4: "\<exists>ip fp u. all_digits ip \<and>
        (toLowerCase (trim ''6mb'') = ip \<or>
         u \<in> {''kb'', ''mb'', ''gb''} \<and>
           (toLowerCase (trim ''6mb'') = ip @ u \<or>
            all_digits fp \<and> toLowerCase (trim ''6mb'') = ip @ ''.'' @ fp @ u))"
    using a4 r4 by (intro c4) blast
  have r5: "parseSizeToBytes ''-5'' = Inl (InvalidMaxSize ''-5'')"
    by (simp add: eval_size)
  have m: "maxSizeBytes scenario_A_args = Some 600000" and z: "maxSizeBytes zero_args = Some 0"
    by (simp_all add: scenario_A_args_def zero_args_def initial_args_def)
  have f7: "\<exists>s. s \<noteq> [] \<and>
        (fitUnder scenario_A_args = Some s \<or>
         fitUnder scenario_A_args = None \<and> maxSize scenario_A_args = Some s) \<and>
        parseSizeToBytes s = Inr 600000"
    using c7 [OF parseArgs_scenario_A] m by blast
  have f0: "compressWithTarget stub_sharp ''scan.jpg'' zero_args [] =
     compressWithTarget stub_sharp ''scan.jpg'' (zero_args\<lparr>maxSizeBytes := None\<rparr>) []"
    using z by (rule c0)
  show ?thesis
    using a1 h1 b1 r1 a2 h2 g2 u b2 r2 a3 h3 g3 b3 r3 g6 b6 d6 t1 t2 r6 r6' a4 r4 f4 a5 r5
      parseArgs_scenario_A m f7 z f0
    by (intro conjI)
qed

text \<open>
  C9. Every fidelity passed to an encode lies within \<open>[0.1, 1.0]\<close>: a finite base or
  least fidelity outside that range is clamped into it before the first encode, in the
  batch tool and in the browser, so no value out of range reaches the encoder.

  In the batch tool \<open>clamp01\<close> maps a finite \<open>q\<close> to \<open>max 0.1 (min 1 q)\<close>; the \<open>args\<close> that
  \<open>parseArgs\<close> returns hold two fidelities within the range; and in the run on those
  \<open>args\<close> every call of \<open>encodeAtQuality\<close> has a fidelity within the range and hands the
  external encoder an integer quality from \<open>10\<close> to \<open>100\<close>. In the browser \<open>clamp\<close> does
  the same to a finite setting, and every call of \<open>canvasToJpegBlob\<close> made by
  \<open>encodeCanvasFitUnder\<close> on finite (or absent) settings has a fidelity within the range.
\<close>

theorem C9_fidelity_within_range:
  "clamp01 (Fin q) = Inr (Fin (max (1 / 10) (min 1 q))) \<and>
   clamp (Fin q) (Fin (1 / 10)) (Fin 1) = Fin (max (1 / 10) (min 1 q)) \<and>
   (parseArgs N argv = Inr a \<longrightarrow>
      valid_fidelity (quality a) \<and> valid_fidelity (minQuality a) \<and>
      list_all (\<lambda>c. valid_fidelity (call_quality c) \<and>
                     valid_jpeg_quality (jpeg_quality (call_opts c)))
        (snd (compressWithTarget S p a []))) \<and>
   list_all (\<lambda>c. valid_fidelity (blob_quality c))
     (snd (encodeCanvasFitUnder T targetBytes (map_option Fin optBase) (map_option Fin optMin) []))"
  using parseArgs_valid [of N argv a] compressWithTarget_valid_calls [of a S p]
    encodeCanvasFitUnder_valid_calls [of T targetBytes optBase optMin]
  by (simp add: clamp01_Fin clamp_Fin)

text \<open>
  The command line \<open>--quality 7 --min-quality 0.01 --fit-under 600000 scan.jpg\<close>: the two
  fidelities become \<open>1\<close> and \<open>0.1\<close>, and the run encodes within the range. The same two
  settings in the browser.
\<close>

theorem C9_fidelity_within_range_witness:
  "clamp01 (Fin 7) = Inr (Fin 1) \<and>
   clamp (Fin (1 / 100)) (Fin (1 / 10)) (Fin 1) = Fin (1 / 10) \<and>
   parseArgs Number_decimal wide_argv = Inr wide_args \<and>
   quality wide_args = Fin 1 \<and> minQuality wide_args = Fin (1 / 10) \<and>
   list_all (\<lambda>c. valid_fidelity (call_quality c) \<and>
                  valid_jpeg_quality (jpeg_quality (call_opts c)))
     (snd (compressWithTarget stub_sharp ''scan.jpg'' wide_args [])) \<and>
   list_all (\<lambda>c. valid_fidelity (blob_quality c))
     (snd (encodeCanvasFitUnder stub_toBlob (Some 600000) (map_option Fin (Some 7))
             (map_option Fin (Some (1 / 100))) []))"
proof -
  have f: "quality wide_args = Fin 1 \<and> minQuality wide_args = Fin (1 / 10)"
    by (simp add: wide_args_def initial_args_def)
  from C9_fidelity_within_range [of 7 Number_decimal wide_argv wide_args stub_sharp
      "''scan.jpg''" stub_toBlob "Some 600000" "Some 7" "Some (1 / 100)"]
    C9_fidelity_within_range [of "1 / 100" Number_decimal wide_argv wide_args stub_sharp
      "''scan.jpg''" stub_toBlob "Some 600000" "Some 7" "Some (1 / 100)"]
    parseArgs_wide f
  show ?thesis by simp
qed

text \<open>
  C10. With a target, every encode that \<open>compressWithTarget\<close> makes strips the metadata,
  because every entry of the table of variants says so; two runs that differ only in
  the \<open>stripMetadata\<close> setting (\<open>--keep-metadata\<close>) give the same result and the same
  encodes. The setting reaches the encoder only in the branch without a target, where
  the one encode keeps the metadata exactly when the setting says so.
\<close>

theorem C10_stripMetadata_only_without_target:
  "list_all stripMetadata variants \<and>
   (maxSizeBytes a = Some t \<and> 0 < t \<longrightarrow>
      compressWithTarget S p (a\<lparr>stripMetadata := x\<rparr>) tr =
        compressWithTarget S p (a\<lparr>stripMetadata := y\<rparr>) tr \<and>
      list_all (\<lambda>c. \<not> call_withMetadata c) (snd (compressWithTarget S p a []))) \<and>
   (maxSizeBytes a' = None \<longrightarrow>
      map call_withMetadata (snd (compressWithTarget S p a' [])) = [\<not> stripMetadata a'])"
proof (intro conjI impI)
  show "list_all stripMetadata variants"
    by (rule variants_strip)
next
  assume "maxSizeBytes a = Some t \<and> 0 < t"
  then show "compressWithTarget S p (a\<lparr>stripMetadata := x\<rparr>) tr =
        compressWithTarget S p (a\<lparr>stripMetadata := y\<rparr>) tr"
    by (simp add: compressWithTarget_stripMetadata_irrelevant)
next
  assume "maxSizeBytes a = Some t \<and> 0 < t"
  then show "list_all (\<lambda>c. \<not> call_withMetadata c) (snd (compressWithTarget S p a []))"
    by (simp add: compressWithTarget_strips)
next
  assume "maxSizeBytes a' = None"
  then have "maxSizeBytes a' = None \<or> maxSizeBytes a' = Some 0" by simp
  then show "map call_withMetadata (snd (compressWithTarget S p a' [])) = [\<not> stripMetadata a']"
    by (simp add: compressWithTarget_unset)
qed

text \<open>
  Scenario A with and without \<open>--keep-metadata\<close>, and the command line
  \<open>--subsample 4:2:0 --progressive --keep-metadata scan.jpg\<close>, which has no target and
  whose one encode keeps the metadata.
\<close>

theorem C10_stripMetadata_only_without_target_witness:
  "maxSizeBytes scenario_A_args = Some 600000 \<and> (0 :: nat) < 600000 \<and>
   compressWithTarget stub_sharp ''scan.jpg'' (scenario_A_args\<lparr>stripMetadata := True\<rparr>) [] =
     compressWithTarget stub_sharp ''scan.jpg'' (scenario_A_args\<lparr>stripMetadata := False\<rparr>) [] \<and>
   list_all (\<lambda>c. \<not> call_withMetadata c)
     (snd (compressWithTarget stub_sharp ''scan.jpg'' scenario_A_args [])) \<and>
   maxSizeBytes custom_args = None \<and> stripMetadata custom_args = False \<and>
   map call_withMetadata (snd (compressWithTarget stub_sharp ''scan.jpg'' custom_args [])) = [True]"
proof -
  have f: "maxSizeBytes scenario_A_args = Some 600000 \<and> (0 :: nat) < 600000 \<and>
      maxSizeBytes custom_args = None \<and> stripMetadata custom_args = False"
    by (simp add: scenario_A_args_def custom_args_def initial_args_def)
  from C10_stripMetadata_only_without_target [of scenario_A_args 600000 stub_sharp
      "''scan.jpg''" True "[]" False custom_args] f
  show ?thesis by simp
qed

end
